theory Spec2Isabelle
  imports Complex_Main "HOL-Library.AList"
begin

section \<open>JavaScript values\<close>

text \<open>
  The server of \<^verbatim>\<open>src/backend/server.js\<close> keeps its whole state in memory and reads
  loosely typed JSON request bodies. A JavaScript number is a double: its finite values
  are rationals, and \<^verbatim>\<open><=\<close> on doubles is the order of those rationals, with
  \<^verbatim>\<open>NaN\<close> comparing false against everything.
\<close>

datatype jsnum = NaN | NegInf | Fin rat | PosInf

text \<open>\<^verbatim>\<open>a <= b\<close> on numbers.\<close>

fun js_le :: "jsnum \<Rightarrow> jsnum \<Rightarrow> bool" where
  "js_le NaN b = False"
| "js_le a NaN = False"
| "js_le NegInf b = True"
| "js_le (Fin x) NegInf = False"
| "js_le (Fin x) (Fin y) = (x \<le> y)"
| "js_le (Fin x) PosInf = True"
| "js_le PosInf PosInf = True"
| "js_le PosInf b = False"

text \<open>\<^verbatim>\<open>a >= b\<close> on numbers: false when either side is \<^verbatim>\<open>NaN\<close>.\<close>

definition js_ge :: "jsnum \<Rightarrow> jsnum \<Rightarrow> bool" where
  "js_ge a b = js_le b a"

text \<open>
  A field of a request body: a JSON primitive, or \<^verbatim>\<open>undefined\<close> when the field is
  absent. The server never checks the type of a field, so every field is of this type,
  the texts and the identifiers too. Arrays and objects are left out.
\<close>

datatype jsval = JUndefined | JNull | JBool bool | JNum jsnum | JStr string

text \<open>\<^verbatim>\<open>!v\<close> is \<open>\<not> truthy v\<close>.\<close>

fun truthy :: "jsval \<Rightarrow> bool" where
  "truthy JUndefined = False"
| "truthy JNull = False"
| "truthy (JBool b) = b"
| "truthy (JNum n) = (n \<noteq> NaN \<and> n \<noteq> Fin 0)"
| "truthy (JStr s) = (s \<noteq> [])"

text \<open>The text of a value that is a string.\<close>

fun str_of :: "jsval \<Rightarrow> string" where
  "str_of (JStr s) = s"
| "str_of v = []"

text \<open>
  The functions of the ECMAScript library that the server calls on strings are
  parameters of the model: \<^verbatim>\<open>parseFloat\<close> and the \<^verbatim>\<open>ToNumber\<close> coercion on a string,
  \<^verbatim>\<open>String.prototype.trim\<close> and \<^verbatim>\<open>String.prototype.toLowerCase\<close>.
\<close>

record builtins =
  parseFloat_str :: "string \<Rightarrow> jsnum"
  toNumber_str :: "string \<Rightarrow> jsnum"
  trim :: "string \<Rightarrow> string"
  toLowerCase :: "string \<Rightarrow> string"

text \<open>
  \<^verbatim>\<open>parseFloat(v)\<close> converts its argument to a string first. The string of a number
  parses back to that number; \<^verbatim>\<open>"undefined"\<close>, \<^verbatim>\<open>"null"\<close>, \<^verbatim>\<open>"true"\<close> and
  \<^verbatim>\<open>"false"\<close> have no numeric prefix.
\<close>

fun parseFloat :: "builtins \<Rightarrow> jsval \<Rightarrow> jsnum" where
  "parseFloat B (JNum n) = n"
| "parseFloat B (JStr s) = parseFloat_str B s"
| "parseFloat B v = NaN"

text \<open>The \<^verbatim>\<open>ToNumber\<close> coercion applied to the right operand of \<^verbatim>\<open>length >= v\<close>.\<close>

fun toNumber :: "builtins \<Rightarrow> jsval \<Rightarrow> jsnum" where
  "toNumber B JUndefined = NaN"
| "toNumber B JNull = Fin 0"
| "toNumber B (JBool b) = (if b then Fin 1 else Fin 0)"
| "toNumber B (JNum n) = n"
| "toNumber B (JStr s) = toNumber_str B s"

text \<open>
  \<^verbatim>\<open>v.toLowerCase()\<close> and \<^verbatim>\<open>v.trim()\<close>: only a string has these methods. On any
  other value the call throws a \<^verbatim>\<open>TypeError\<close>, which is the result \<open>None\<close>.
\<close>

fun lower_of :: "builtins \<Rightarrow> jsval \<Rightarrow> string option" where
  "lower_of B (JStr s) = Some (toLowerCase B s)"
| "lower_of B v = None"

fun trim_of :: "builtins \<Rightarrow> jsval \<Rightarrow> string option" where
  "trim_of B (JStr s) = Some (trim B s)"
| "trim_of B v = None"

text \<open>\<^verbatim>\<open>s.includes(k)\<close>: \<open>k\<close> occurs in \<open>s\<close> as a contiguous substring.\<close>

fun startsWith :: "string \<Rightarrow> string \<Rightarrow> bool" where
  "startsWith s [] = True"
| "startsWith [] (k # ks) = False"
| "startsWith (c # cs) (k # ks) = (c = k \<and> startsWith cs ks)"

fun includes_str :: "string \<Rightarrow> string \<Rightarrow> bool" where
  "includes_str [] k = (k = [])"
| "includes_str (c # cs) k = (startsWith (c # cs) k \<or> includes_str cs k)"

section \<open>The data store\<close>

type_synonym uuid = string

text \<open>
  A JavaScript \<^verbatim>\<open>Map\<close> keeps its entries in insertion order: an association list,
  with \<open>map_of\<close> for \<^verbatim>\<open>get\<close>, \<open>AList.update\<close> for \<^verbatim>\<open>set\<close> (the value of a present
  key is replaced in place, a new key is appended) and \<open>AList.delete\<close> for
  \<^verbatim>\<open>delete\<close>.
\<close>

type_synonym ('k, 'v) jsmap = "('k \<times> 'v) list"

text \<open>
  \<^verbatim>\<open>m.get(v)\<close> for a value read from a request body. The keys of the maps are the
  strings of \<^verbatim>\<open>uuidv4()\<close>, so only a string finds an entry.
\<close>

fun get_opt :: "(uuid, 'v) jsmap \<Rightarrow> jsval \<Rightarrow> 'v option" where
  "get_opt m (JStr k) = map_of m k"
| "get_opt m v = None"

datatype status = Pending | Promoted | Verified | Rejected

datatype mode = Centralized | Decentralized

record verification =
  v_id :: uuid
  v_dealId :: uuid
  verifierId :: uuid
  verifierUsername :: string
  verdict :: jsval
  evidence :: jsval
  v_timestamp :: nat

text \<open>
  A deal keeps the title, the URL and the category as they came in the request: any
  truthy value, not only a string.
\<close>

record deal =
  deal_id :: uuid
  title :: jsval
  price :: jsnum
  originalPrice :: "jsnum option"
  url :: jsval
  productCategory :: jsval
  submittedBy :: uuid
  submittedByUsername :: string
  timestamp :: nat
  verifications :: "verification list"
  votes :: nat
  status :: status
  promotedAt :: "nat option"
  verifiedAt :: "nat option"

record user =
  user_id :: uuid
  username :: string
  reputationScore :: nat
  verificationHistory :: "uuid list"
  createdAt :: nat

record alert =
  alert_id :: uuid
  userId :: uuid
  productKeywords :: string
  maxPrice :: jsnum
  minVerifications :: jsval
  a_createdAt :: nat
  triggered :: "uuid list"

record config =
  mode :: mode
  promotionThreshold :: nat
  promotionDelay :: nat
  promotionDelaySimulated :: nat

text \<open>
  The \<^verbatim>\<open>state\<close> object, and with it the one piece of state that lives in the event
  loop: the callbacks \<^verbatim>\<open>() => checkPromotion(dealId)\<close> that \<^verbatim>\<open>setTimeout\<close> has
  scheduled and that have not run yet, each with its delay.
\<close>

record state =
  deals :: "(uuid, deal) jsmap"
  users :: "(uuid, user) jsmap"
  all_verifications :: "(uuid, verification) jsmap"
  alerts :: "(uuid, alert) jsmap"
  config :: config
  timers :: "(uuid \<times> nat) list"

definition init_state :: state where
  "init_state =
    \<lparr>deals = [], users = [], all_verifications = [], alerts = [],
     config = \<lparr>mode = Centralized, promotionThreshold = 5,
               promotionDelay = 4 * 60 * 60 * 1000, promotionDelaySimulated = 10000\<rparr>,
     timers = []\<rparr>"

section \<open>Messages and responses\<close>

record notification =
  n_alertId :: uuid
  n_dealId :: uuid
  n_userId :: uuid
  n_deal :: deal
  n_timestamp :: nat
  latency :: int

text \<open>What \<^verbatim>\<open>broadcast\<close> sends: the message is serialised at the call, so it carries
  the deal as it is at that moment.\<close>

datatype message =
    NEW_DEAL deal
  | DEAL_UPDATED deal
  | DEAL_PROMOTED deal
  | DEAL_VERIFIED deal
  | DEAL_REJECTED deal
  | ALERT_TRIGGERED notification
  | CONFIG_UPDATED config

text \<open>The failures of the handlers: HTTP status 400, 404 and 409.\<close>

datatype error = ValidationError | NotFoundError | DuplicateError

text \<open>
  How a callback ends. \<open>TypeError_thrown\<close>: it was left by a \<^verbatim>\<open>TypeError\<close>, with
  whatever it had done to the state and broadcast before; for a request Express
  answers with status 500, for a timer nothing catches the exception.
\<close>

datatype response =
    Failure error string
  | Success_user user
  | Success_deal deal
  | Success_verification verification deal
  | Success_alert alert
  | Success_deleted bool
  | Success_config config
  | No_response
  | TypeError_thrown

section \<open>Alerts\<close>

text \<open>
  The three tests of \<^verbatim>\<open>checkAlertsForDeal\<close>. The first one lower-cases the title,
  and the category if the title does not hold the keywords: it is \<open>None\<close> when that
  throws.
\<close>

definition keywordsMatch :: "builtins \<Rightarrow> deal \<Rightarrow> alert \<Rightarrow> bool option" where
  "keywordsMatch B deal alert =
    (case lower_of B (title deal) of
       None \<Rightarrow> None
     | Some t \<Rightarrow>
        if includes_str t (productKeywords alert) then Some True
        else (case lower_of B (productCategory deal) of
                None \<Rightarrow> None
              | Some c \<Rightarrow> Some (includes_str c (productKeywords alert))))"

definition priceMatch :: "deal \<Rightarrow> alert \<Rightarrow> bool" where
  "priceMatch deal alert = js_le (price deal) (maxPrice alert)"

definition verificationMatch :: "builtins \<Rightarrow> deal \<Rightarrow> alert \<Rightarrow> bool" where
  "verificationMatch B deal alert =
    js_ge (Fin (of_nat (length (verifications deal)))) (toNumber B (minVerifications alert))"

text \<open>
  The body of the \<^verbatim>\<open>forEach\<close>: the alert after the visit, what was broadcast, and
  whether the visit threw.
\<close>

definition checkAlert :: "builtins \<Rightarrow> nat \<Rightarrow> deal \<Rightarrow> alert \<Rightarrow> alert \<times> message list \<times> bool" where
  "checkAlert B now deal alert =
    (case keywordsMatch B deal alert of
       None \<Rightarrow> (alert, [], True)
     | Some keywords \<Rightarrow>
        if keywords \<and> priceMatch deal alert \<and> verificationMatch B deal alert
        then
          (if deal_id deal \<notin> set (triggered alert)
           then (alert\<lparr>triggered := triggered alert @ [deal_id deal]\<rparr>,
                 [ALERT_TRIGGERED
                   \<lparr>n_alertId = alert_id alert, n_dealId = deal_id deal,
                    n_userId = userId alert, n_deal = deal, n_timestamp = now,
                    latency = int now - int (timestamp deal)\<rparr>],
                 False)
           else (alert, [], False))
        else (alert, [], False))"

text \<open>
  The \<^verbatim>\<open>forEach\<close> over the alerts, in the order of the map. A visit that throws ends
  the loop: the alerts after it are not visited.
\<close>

fun checkAlerts_each ::
  "builtins \<Rightarrow> nat \<Rightarrow> deal \<Rightarrow> (uuid, alert) jsmap \<Rightarrow>
    (uuid, alert) jsmap \<times> message list \<times> bool" where
  "checkAlerts_each B now deal [] = ([], [], False)"
| "checkAlerts_each B now deal ((k, a) # rest) =
    (case checkAlert B now deal a of
       (a', m, thrown) \<Rightarrow>
         if thrown then ((k, a') # rest, m, True)
         else (case checkAlerts_each B now deal rest of
                 (rest', ms, thrown') \<Rightarrow> ((k, a') # rest', m @ ms, thrown')))"

definition checkAlertsForDeal ::
  "builtins \<Rightarrow> nat \<Rightarrow> deal \<Rightarrow> state \<Rightarrow> state \<times> message list \<times> bool" where
  "checkAlertsForDeal B now deal s =
    (case checkAlerts_each B now deal (alerts s) of
       (al, ms, thrown) \<Rightarrow> (s\<lparr>alerts := al\<rparr>, ms, thrown))"

section \<open>Request bodies\<close>

record deal_body =
  req_title :: jsval
  req_price :: jsval
  req_originalPrice :: jsval
  req_url :: jsval
  req_productCategory :: jsval
  req_submittedBy :: jsval

record verify_body =
  req_userId :: jsval
  req_verdict :: jsval
  req_evidence :: jsval

record alert_body =
  req_alert_userId :: jsval
  req_productKeywords :: jsval
  req_maxPrice :: jsval
  req_minVerifications :: jsval

section \<open>The handlers\<close>

text \<open>
  Every handler takes the state and returns the response, the state after it and the
  messages broadcast, in order. What \<^verbatim>\<open>uuidv4()\<close> and \<^verbatim>\<open>Date.now()\<close> return is
  given to the handler: one identifier and one clock reading for each run.
\<close>

type_synonym outcome = "response \<times> state \<times> message list"

text \<open>\<^verbatim>\<open>POST /api/users/register\<close>\<close>

definition post_register :: "builtins \<Rightarrow> jsval \<Rightarrow> uuid \<Rightarrow> nat \<Rightarrow> state \<Rightarrow> outcome" where
  "post_register B uname newId now s =
    (if \<not> truthy uname then (Failure ValidationError ''Username required'', s, [])
     else
       (case trim_of B uname of
          None \<Rightarrow> (TypeError_thrown, s, [])
        | Some trimmed \<Rightarrow>
           if length trimmed = 0 then (Failure ValidationError ''Username required'', s, [])
           else if list_ex (\<lambda>u. username u = str_of uname) (map snd (users s))
           then (Failure DuplicateError ''Username already exists'', s, [])
           else
             (let user = \<lparr>user_id = newId, username = trimmed, reputationScore = 100,
                           verificationHistory = [], createdAt = now\<rparr>
              in (Success_user user, s\<lparr>users := AList.update newId user (users s)\<rparr>, []))))"

text \<open>\<^verbatim>\<open>POST /api/deals\<close>: the deal object it builds, and the handler.\<close>

definition new_deal :: "builtins \<Rightarrow> deal_body \<Rightarrow> user \<Rightarrow> uuid \<Rightarrow> nat \<Rightarrow> deal" where
  "new_deal B body user dealId now =
    \<lparr>deal_id = dealId,
     title = req_title body,
     price = parseFloat B (req_price body),
     originalPrice =
       (if truthy (req_originalPrice body)
        then Some (parseFloat B (req_originalPrice body)) else None),
     url = req_url body,
     productCategory =
       (if truthy (req_productCategory body) then req_productCategory body
        else JStr ''General''),
     submittedBy = str_of (req_submittedBy body),
     submittedByUsername = username user,
     timestamp = now,
     verifications = [],
     votes = 0,
     status = Pending,
     promotedAt = None,
     verifiedAt = None\<rparr>"

definition post_deals :: "builtins \<Rightarrow> deal_body \<Rightarrow> uuid \<Rightarrow> nat \<Rightarrow> state \<Rightarrow> outcome" where
  "post_deals B body dealId now s =
    (if \<not> truthy (req_title body) \<or> \<not> truthy (req_price body) \<or>
        \<not> truthy (req_url body) \<or> \<not> truthy (req_submittedBy body)
     then (Failure ValidationError ''Missing required fields'', s, [])
     else
       (case get_opt (users s) (req_submittedBy body) of
          None \<Rightarrow> (Failure NotFoundError ''User not found'', s, [])
        | Some user \<Rightarrow>
           (let deal = new_deal B body user dealId now;
                s1 = s\<lparr>deals := AList.update dealId deal (deals s)\<rparr>;
                s2 = (if mode (config s1) = Centralized
                      then s1\<lparr>timers := timers s1 @
                                [(dealId, promotionDelaySimulated (config s1))]\<rparr>
                      else s1)
            in (Success_deal deal, s2, [NEW_DEAL deal]))))"

text \<open>
  \<^verbatim>\<open>checkPromotion(dealId)\<close>, run by the timer: the state after it, what it
  broadcast, and whether it was left by an exception of the alert evaluation.
\<close>

definition checkPromotion ::
  "builtins \<Rightarrow> nat \<Rightarrow> uuid \<Rightarrow> state \<Rightarrow> state \<times> message list \<times> bool" where
  "checkPromotion B now dealId s =
    (case map_of (deals s) dealId of
       None \<Rightarrow> (s, [], False)
     | Some deal \<Rightarrow>
        (if status deal \<noteq> Pending then (s, [], False)
         else if promotionThreshold (config s) \<le> votes deal
         then
           (let deal' = deal\<lparr>status := Promoted, promotedAt := Some now\<rparr>;
                s1 = s\<lparr>deals := AList.update dealId deal' (deals s)\<rparr>
            in (case checkAlertsForDeal B now deal' s1 of
                  (s2, ms, thrown) \<Rightarrow> (s2, DEAL_PROMOTED deal' # ms, thrown)))
         else (s, [], False)))"

text \<open>\<^verbatim>\<open>POST /api/deals/:dealId/vote\<close>\<close>

definition post_vote :: "uuid \<Rightarrow> jsval \<Rightarrow> state \<Rightarrow> outcome" where
  "post_vote dealId uid s =
    (case map_of (deals s) dealId of
       None \<Rightarrow> (Failure NotFoundError ''Deal not found'', s, [])
     | Some deal \<Rightarrow>
        (case get_opt (users s) uid of
           None \<Rightarrow> (Failure NotFoundError ''User not found'', s, [])
         | Some user \<Rightarrow>
            (let deal' = deal\<lparr>votes := votes deal + 1\<rparr>
             in (Success_deal deal', s\<lparr>deals := AList.update dealId deal' (deals s)\<rparr>,
                 [DEAL_UPDATED deal']))))"

text \<open>
  \<^verbatim>\<open>checkConsensus(deal)\<close>. The deal is an object of the store: the model passes the
  key it is stored under and its value, and returns the value after the call, the
  state, what was broadcast, and whether the call was left by an exception of the alert
  evaluation.
\<close>

definition CONSENSUS_THRESHOLD :: nat where
  "CONSENSUS_THRESHOLD = 3"

definition validVerifications :: "deal \<Rightarrow> nat" where
  "validVerifications deal = length (filter (\<lambda>v. verdict v = JStr ''valid'') (verifications deal))"

definition invalidVerifications :: "deal \<Rightarrow> nat" where
  "invalidVerifications deal =
    length (filter (\<lambda>v. verdict v = JStr ''invalid'') (verifications deal))"

definition checkConsensus ::
  "builtins \<Rightarrow> nat \<Rightarrow> uuid \<Rightarrow> deal \<Rightarrow> state \<Rightarrow> deal \<times> state \<times> message list \<times> bool" where
  "checkConsensus B now dealId deal s =
    (if CONSENSUS_THRESHOLD \<le> validVerifications deal \<and> status deal = Pending
     then
       (let deal' = deal\<lparr>status := Verified, verifiedAt := Some now\<rparr>;
            s1 = s\<lparr>deals := AList.update dealId deal' (deals s)\<rparr>
        in (case checkAlertsForDeal B now deal' s1 of
              (s2, ms, thrown) \<Rightarrow> (deal', s2, DEAL_VERIFIED deal' # ms, thrown)))
     else if CONSENSUS_THRESHOLD \<le> invalidVerifications deal \<and> status deal = Pending
     then
       (let deal' = deal\<lparr>status := Rejected\<rparr>
        in (deal', s\<lparr>deals := AList.update dealId deal' (deals s)\<rparr>, [DEAL_REJECTED deal'],
            False))
     else (deal, s, [], False))"

text \<open>
  \<^verbatim>\<open>POST /api/deals/:dealId/verify\<close>: the verification object it builds, the three
  stores it records it in, and the handler. An exception of the consensus check leaves
  the handler before the last broadcast and the response.
\<close>

definition new_verification :: "deal \<Rightarrow> user \<Rightarrow> verify_body \<Rightarrow> uuid \<Rightarrow> nat \<Rightarrow> verification" where
  "new_verification deal user body newId now =
    \<lparr>v_id = newId, v_dealId = deal_id deal,
     verifierId = str_of (req_userId body),
     verifierUsername = username user,
     verdict = req_verdict body,
     evidence = (if truthy (req_evidence body) then req_evidence body else JStr []),
     v_timestamp = now\<rparr>"

definition record_verification :: "uuid \<Rightarrow> deal \<Rightarrow> user \<Rightarrow> verification \<Rightarrow> state \<Rightarrow> state" where
  "record_verification dealId deal user verification s =
    s\<lparr>deals :=
        AList.update dealId (deal\<lparr>verifications := verifications deal @ [verification]\<rparr>)
          (deals s),
      all_verifications :=
        AList.update (v_id verification) verification (all_verifications s),
      users :=
        AList.update (verifierId verification)
          (user\<lparr>verificationHistory := verificationHistory user @ [v_id verification]\<rparr>)
          (users s)\<rparr>"

definition post_verify :: "builtins \<Rightarrow> uuid \<Rightarrow> verify_body \<Rightarrow> uuid \<Rightarrow> nat \<Rightarrow> state \<Rightarrow> outcome" where
  "post_verify B dealId body newId now s =
    (case map_of (deals s) dealId of
       None \<Rightarrow> (Failure NotFoundError ''Deal not found'', s, [])
     | Some deal \<Rightarrow>
        (case get_opt (users s) (req_userId body) of
           None \<Rightarrow> (Failure NotFoundError ''User not found'', s, [])
         | Some user \<Rightarrow>
            (if list_ex (\<lambda>v. verifierId v = str_of (req_userId body)) (verifications deal)
             then (Failure DuplicateError ''You already verified this deal'', s, [])
             else
               (let verification = new_verification deal user body newId now;
                    deal1 = deal\<lparr>verifications := verifications deal @ [verification]\<rparr>;
                    s1 = record_verification dealId deal user verification s
                in (case (if mode (config s1) = Decentralized
                          then checkConsensus B now dealId deal1 s1
                          else (deal1, s1, [], False)) of
                      (deal2, s2, ms, thrown) \<Rightarrow>
                        if thrown then (TypeError_thrown, s2, ms)
                        else (Success_verification verification deal2, s2,
                              ms @ [DEAL_UPDATED deal2]))))))"

text \<open>
  \<^verbatim>\<open>POST /api/alerts\<close>: the alert object it builds, and the handler. The keywords
  are lower-cased while the object is built, before anything is stored.
\<close>

definition new_alert :: "builtins \<Rightarrow> alert_body \<Rightarrow> string \<Rightarrow> uuid \<Rightarrow> nat \<Rightarrow> alert" where
  "new_alert B body keywords alertId now =
    \<lparr>alert_id = alertId,
     userId = str_of (req_alert_userId body),
     productKeywords = keywords,
     maxPrice = parseFloat B (req_maxPrice body),
     minVerifications =
       (if truthy (req_minVerifications body) then req_minVerifications body
        else JNum (Fin 3)),
     a_createdAt = now,
     triggered = []\<rparr>"

definition post_alerts :: "builtins \<Rightarrow> alert_body \<Rightarrow> uuid \<Rightarrow> nat \<Rightarrow> state \<Rightarrow> outcome" where
  "post_alerts B body alertId now s =
    (if \<not> truthy (req_alert_userId body) \<or> \<not> truthy (req_productKeywords body) \<or>
        \<not> truthy (req_maxPrice body)
     then (Failure ValidationError ''Missing required fields'', s, [])
     else
       (case get_opt (users s) (req_alert_userId body) of
          None \<Rightarrow> (Failure NotFoundError ''User not found'', s, [])
        | Some user \<Rightarrow>
           (case lower_of B (req_productKeywords body) of
              None \<Rightarrow> (TypeError_thrown, s, [])
            | Some keywords \<Rightarrow>
               (let alert = new_alert B body keywords alertId now
                in (Success_alert alert,
                    s\<lparr>alerts := AList.update alertId alert (alerts s)\<rparr>, [])))))"

text \<open>\<^verbatim>\<open>DELETE /api/alerts/:alertId\<close>\<close>

definition delete_alert :: "uuid \<Rightarrow> state \<Rightarrow> outcome" where
  "delete_alert alertId s =
    (Success_deleted (map_of (alerts s) alertId \<noteq> None),
     s\<lparr>alerts := AList.delete alertId (alerts s)\<rparr>, [])"

text \<open>\<^verbatim>\<open>POST /api/config/mode\<close>\<close>

definition post_mode :: "jsval \<Rightarrow> state \<Rightarrow> outcome" where
  \<open>post_mode m s =
    (if m = JStr ''centralized''
     then (let c = (config s)\<lparr>mode := Centralized\<rparr>
           in (Success_config c, s\<lparr>config := c\<rparr>, [CONFIG_UPDATED c]))
     else if m = JStr ''decentralized''
     then (let c = (config s)\<lparr>mode := Decentralized\<rparr>
           in (Success_config c, s\<lparr>config := c\<rparr>, [CONFIG_UPDATED c]))
     else (Failure ValidationError ''Mode must be "centralized" or "decentralized"'', s, []))\<close>

section \<open>The server as a transition system\<close>

text \<open>
  The event loop runs one callback at a time to its end: a request handler, or a
  scheduled promotion check. A timer that fires leaves the queue and runs
  \<^verbatim>\<open>checkPromotion\<close> on its deal; there is no timer to fire for a deal that has none
  in the queue. The model leaves open when a scheduled check fires: at any moment after
  it was scheduled. The \<^verbatim>\<open>GET\<close> routes change nothing and are left out.

  An exception that leaves a request handler is caught by Express, and the server goes
  on. One that leaves a timer callback is caught by nobody: Node then ends the process,
  and the sequence of events ends there. The model does not end it: what is proved
  below of every sequence of events holds of the sequences that end there.
\<close>

fun remove_timer :: "uuid \<Rightarrow> (uuid \<times> nat) list \<Rightarrow> (uuid \<times> nat) list" where
  "remove_timer d [] = []"
| "remove_timer d (t # ts) = (if fst t = d then ts else t # remove_timer d ts)"

definition timer_fires :: "builtins \<Rightarrow> uuid \<Rightarrow> nat \<Rightarrow> state \<Rightarrow> outcome" where
  "timer_fires B dealId now s =
    (if list_ex (\<lambda>t. fst t = dealId) (timers s)
     then (case checkPromotion B now dealId (s\<lparr>timers := remove_timer dealId (timers s)\<rparr>) of
             (s', ms, thrown) \<Rightarrow> (if thrown then TypeError_thrown else No_response, s', ms))
     else (No_response, s, []))"

datatype event =
    Register jsval uuid nat
  | PostDeal deal_body uuid nat
  | PostVote uuid jsval
  | PostVerify uuid verify_body uuid nat
  | PostAlert alert_body uuid nat
  | DeleteAlert uuid
  | PostMode jsval
  | TimerFires uuid nat

fun step :: "builtins \<Rightarrow> state \<Rightarrow> event \<Rightarrow> outcome" where
  "step B s (Register uname newId now) = post_register B uname newId now s"
| "step B s (PostDeal body newId now) = post_deals B body newId now s"
| "step B s (PostVote dealId uid) = post_vote dealId uid s"
| "step B s (PostVerify dealId body newId now) = post_verify B dealId body newId now s"
| "step B s (PostAlert body newId now) = post_alerts B body newId now s"
| "step B s (DeleteAlert alertId) = delete_alert alertId s"
| "step B s (PostMode m) = post_mode m s"
| "step B s (TimerFires dealId now) = timer_fires B dealId now s"

definition next_state :: "builtins \<Rightarrow> state \<Rightarrow> event \<Rightarrow> state" where
  "next_state B s e = fst (snd (step B s e))"

definition sent :: "builtins \<Rightarrow> state \<Rightarrow> event \<Rightarrow> message list" where
  "sent B s e = snd (snd (step B s e))"

text \<open>The state after a sequence of events, and everything broadcast on the way.\<close>

fun run :: "builtins \<Rightarrow> state \<Rightarrow> event list \<Rightarrow> state" where
  "run B s [] = s"
| "run B s (e # es) = run B (next_state B s e) es"

fun run_sent :: "builtins \<Rightarrow> state \<Rightarrow> event list \<Rightarrow> message list" where
  "run_sent B s [] = []"
| "run_sent B s (e # es) = sent B s e @ run_sent B (next_state B s e) es"

text \<open>
  \<^verbatim>\<open>uuidv4()\<close> returns an identifier that is not in use: the identifier an event
  brings is not a key of the store it is added to.
\<close>

fun fresh :: "state \<Rightarrow> event \<Rightarrow> bool" where
  "fresh s (Register uname newId now) = (map_of (users s) newId = None)"
| "fresh s (PostDeal body newId now) = (map_of (deals s) newId = None)"
| "fresh s (PostVerify dealId body newId now) = (map_of (all_verifications s) newId = None)"
| "fresh s (PostAlert body newId now) = (map_of (alerts s) newId = None)"
| "fresh s e = True"

fun fresh_run :: "builtins \<Rightarrow> state \<Rightarrow> event list \<Rightarrow> bool" where
  "fresh_run B s [] = True"
| "fresh_run B s (e # es) = (fresh s e \<and> fresh_run B (next_state B s e) es)"

text \<open>The status of the deal stored under a key.\<close>

definition status_of :: "state \<Rightarrow> uuid \<Rightarrow> status option" where
  "status_of s d = map_option status (map_of (deals s) d)"

section \<open>Observations\<close>

text \<open>The alert notifications among the messages broadcast, for one alert and one deal.\<close>

fun is_trigger :: "uuid \<Rightarrow> uuid \<Rightarrow> message \<Rightarrow> bool" where
  "is_trigger a d (ALERT_TRIGGERED n) = (n_alertId n = a \<and> n_dealId n = d)"
| "is_trigger a d m = False"

definition count_triggers :: "uuid \<Rightarrow> uuid \<Rightarrow> message list \<Rightarrow> nat" where
  "count_triggers a d ms = length (filter (is_trigger a d) ms)"

text \<open>
  What the \<^verbatim>\<open>Map\<close> of alerts guarantees: no key occurs twice, and every alert is
  stored under its own \<^verbatim>\<open>id\<close>.
\<close>

definition alerts_wf :: "(uuid, alert) jsmap \<Rightarrow> bool" where
  "alerts_wf al = (distinct (map fst al) \<and> list_all (\<lambda>(k, a). alert_id a = k) al)"

text \<open>1 when the deal is in the triggered set of the alert, 0 when it is not.\<close>

definition already :: "uuid \<Rightarrow> alert \<Rightarrow> nat" where
  "already d a = (if d \<in> set (triggered a) then 1 else 0)"

subsection \<open>The life of a deal\<close>

text \<open>The changes of status that the lifecycle allows: none, or out of \<open>Pending\<close>.\<close>

definition allowed_transition :: "status \<Rightarrow> status \<Rightarrow> bool" where
  "allowed_transition st st' =
    (st' = st \<or> (st = Pending \<and> (st' = Promoted \<or> st' = Verified \<or> st' = Rejected)))"

text \<open>
  How a stored deal relates to an earlier value of itself: verifications are only
  appended, votes only added, and the status moves as allowed.
\<close>

definition deal_evolves :: "deal \<Rightarrow> deal \<Rightarrow> bool" where
  "deal_evolves deal deal' =
    (deal_id deal' = deal_id deal \<and>
     take (length (verifications deal)) (verifications deal') = verifications deal \<and>
     votes deal \<le> votes deal' \<and>
     allowed_transition (status deal) (status deal'))"

subsection \<open>Alert evaluation\<close>

text \<open>
  A call of \<^verbatim>\<open>checkAlertsForDeal\<close> shows in the triggered sets of the alerts and in
  the notifications broadcast, and nowhere else. A callback has evaluated the alerts
  for a deal when both are what the call on that deal yields (up to the alert where it
  throws, if it does), and has not when the alerts are untouched and no notification
  was sent.
\<close>

fun is_alert_msg :: "message \<Rightarrow> bool" where
  "is_alert_msg (ALERT_TRIGGERED n) = True"
| "is_alert_msg m = False"

definition alert_msgs :: "message list \<Rightarrow> message list" where
  "alert_msgs ms = filter is_alert_msg ms"

definition evaluated_for :: "builtins \<Rightarrow> nat \<Rightarrow> deal \<Rightarrow> state \<Rightarrow> state \<Rightarrow> message list \<Rightarrow> bool" where
  "evaluated_for B now deal s s' ms =
    (alerts s' = fst (checkAlerts_each B now deal (alerts s)) \<and>
     alert_msgs ms = fst (snd (checkAlerts_each B now deal (alerts s))))"

definition not_evaluated :: "state \<Rightarrow> state \<Rightarrow> message list \<Rightarrow> bool" where
  "not_evaluated s s' ms = (alerts s' = alerts s \<and> alert_msgs ms = [])"

text \<open>Two alerts with the same criteria: they differ at most in what they triggered for.\<close>

definition same_criteria :: "alert \<Rightarrow> alert \<Rightarrow> bool" where
  "same_criteria a a' =
    (productKeywords a' = productKeywords a \<and> maxPrice a' = maxPrice a \<and>
     minVerifications a' = minVerifications a)"

text \<open>The deal stored under a key was pending before and has the given status after.\<close>

definition became :: "state \<Rightarrow> state \<Rightarrow> uuid \<Rightarrow> status \<Rightarrow> bool" where
  "became s s' d st = (status_of s d = Some Pending \<and> status_of s' d = Some st)"

subsection \<open>Scheduled checks\<close>

text \<open>The number of promotion checks in the queue for a deal.\<close>

definition count_timers :: "uuid \<Rightarrow> state \<Rightarrow> nat" where
  "count_timers d s = length (filter (\<lambda>t. fst t = d) (timers s))"

text \<open>The event is a promotion check of the deal.\<close>

fun fires_for :: "uuid \<Rightarrow> event \<Rightarrow> bool" where
  "fires_for d (TimerFires d' now) = (d' = d)"
| "fires_for d e = False"

text \<open>Every event of the sequence is handled while the mode is centralized.\<close>

fun centralized_run :: "builtins \<Rightarrow> state \<Rightarrow> event list \<Rightarrow> bool" where
  "centralized_run B s [] = True"
| "centralized_run B s (e # es) =
    (mode (config s) = Centralized \<and> centralized_run B (next_state B s e) es)"

section \<open>An instance of the library functions, for the examples\<close>

text \<open>
  The examples below run the model on ASCII text and on numbers written as plain
  decimal digits, where these functions are the ECMAScript ones: lower-casing of the
  letters A to Z, trimming of blanks, tabs and line ends, and the value of a string of
  digits (\<^verbatim>\<open>NaN\<close> for a string with any other character; the empty string is
  \<^verbatim>\<open>NaN\<close> for \<^verbatim>\<open>parseFloat\<close> and 0 for \<^verbatim>\<open>ToNumber\<close>).
\<close>

definition ascii_lower :: "char \<Rightarrow> char" where
  "ascii_lower c =
    (case map_of (zip ''ABCDEFGHIJKLMNOPQRSTUVWXYZ'' ''abcdefghijklmnopqrstuvwxyz'') c of
       None \<Rightarrow> c
     | Some l \<Rightarrow> l)"

definition is_space :: "char \<Rightarrow> bool" where
  "is_space c = (c \<in> set [CHR 0x09, CHR 0x0A, CHR 0x0B, CHR 0x0C, CHR 0x0D, CHR '' ''])"

definition digit_of :: "char \<Rightarrow> nat option" where
  "digit_of c = map_of (zip ''0123456789'' [0, 1, 2, 3, 4, 5, 6, 7, 8, 9]) c"

fun digits_value :: "nat \<Rightarrow> string \<Rightarrow> nat option" where
  "digits_value acc [] = Some acc"
| "digits_value acc (c # cs) =
    (case digit_of c of None \<Rightarrow> None | Some d \<Rightarrow> digits_value (10 * acc + d) cs)"

definition decimal :: "string \<Rightarrow> jsnum" where
  "decimal s =
    (if s = [] then NaN
     else case digits_value 0 s of None \<Rightarrow> NaN | Some n \<Rightarrow> Fin (of_nat n))"

definition ascii_builtins :: builtins where
  "ascii_builtins =
    \<lparr>parseFloat_str = decimal,
     toNumber_str = (\<lambda>s. if s = [] then Fin 0 else decimal s),
     trim = (\<lambda>s. rev (dropWhile is_space (rev (dropWhile is_space s)))),
     toLowerCase = map ascii_lower\<rparr>"

section \<open>Example data\<close>

definition mk_user :: "uuid \<Rightarrow> string \<Rightarrow> user" where
  "mk_user uid name =
    \<lparr>user_id = uid, username = name, reputationScore = 100, verificationHistory = [],
     createdAt = 1\<rparr>"

definition six_users :: "(uuid, user) jsmap" where
  "six_users =
    [(''u1'', mk_user ''u1'' ''alice''), (''u2'', mk_user ''u2'' ''bob''),
     (''u3'', mk_user ''u3'' ''carol''), (''u4'', mk_user ''u4'' ''dave''),
     (''u5'', mk_user ''u5'' ''erin''), (''u6'', mk_user ''u6'' ''frank'')]"

definition verdict_by :: "uuid \<Rightarrow> uuid \<Rightarrow> string \<Rightarrow> string \<Rightarrow> verification" where
  "verdict_by vid uid uname v =
    \<lparr>v_id = vid, v_dealId = ''d1'', verifierId = uid, verifierUsername = uname,
     verdict = JStr v, evidence = JStr [], v_timestamp = 20\<rparr>"

definition rtx_deal :: deal where
  "rtx_deal =
    \<lparr>deal_id = ''d1'', title = JStr ''RTX 4080'', price = Fin 650, originalPrice = None,
     url = JStr ''http://shop.example/rtx'', productCategory = JStr ''Electronics'',
     submittedBy = ''u1'', submittedByUsername = ''alice'', timestamp = 10,
     verifications = [], votes = 0, status = Pending, promotedAt = None,
     verifiedAt = None\<rparr>"

definition three_valid :: "verification list" where
  "three_valid =
    [verdict_by ''v1'' ''u1'' ''alice'' ''valid'', verdict_by ''v2'' ''u2'' ''bob'' ''valid'',
     verdict_by ''v3'' ''u3'' ''carol'' ''valid'']"

definition rtx_verified :: deal where
  "rtx_verified = rtx_deal\<lparr>verifications := three_valid, status := Verified,
                           verifiedAt := Some 20\<rparr>"

definition electronics_alert :: alert where
  "electronics_alert =
    \<lparr>alert_id = ''a1'', userId = ''u2'', productKeywords = ''electronics'',
     maxPrice = Fin 700, minVerifications = JStr ''3'', a_createdAt = 11, triggered = []\<rparr>"

definition laptop_alert :: alert where
  "laptop_alert =
    \<lparr>alert_id = ''a2'', userId = ''u2'', productKeywords = ''laptop'',
     maxPrice = Fin 500, minVerifications = JNum (Fin 3), a_createdAt = 12, triggered = []\<rparr>"

definition laptop_deal :: deal where
  "laptop_deal =
    \<lparr>deal_id = ''d2'', title = JStr ''Gaming Laptop'', price = Fin 501, originalPrice = None,
     url = JStr ''http://shop.example/laptop'', productCategory = JStr ''Computers'',
     submittedBy = ''u1'', submittedByUsername = ''alice'', timestamp = 10,
     verifications = three_valid, votes = 0, status = Verified, promotedAt = None,
     verifiedAt = Some 20\<rparr>"

definition example_state :: state where
  "example_state =
    init_state\<lparr>users := six_users,
               alerts := [(''a1'', electronics_alert), (''a2'', laptop_alert)]\<rparr>"

text \<open>
  A deal that collected three \<^verbatim>\<open>invalid\<close> and two \<^verbatim>\<open>valid\<close> verdicts while the
  server was in centralized mode, in a server since switched to decentralized mode.
\<close>

definition contested_deal :: deal where
  "contested_deal =
    rtx_deal\<lparr>verifications :=
      [verdict_by ''v2'' ''u2'' ''bob'' ''invalid'', verdict_by ''v3'' ''u3'' ''carol'' ''invalid'',
       verdict_by ''v4'' ''u4'' ''dave'' ''invalid'', verdict_by ''v5'' ''u5'' ''erin'' ''valid'',
       verdict_by ''v6'' ''u6'' ''frank'' ''valid'']\<rparr>"

definition contested_state :: state where
  "contested_state =
    example_state\<lparr>deals := [(''d1'', contested_deal)],
                  config := (config example_state)\<lparr>mode := Decentralized\<rparr>\<rparr>"

definition alice_says_valid :: verify_body where
  "alice_says_valid =
    \<lparr>req_userId = JStr ''u1'', req_verdict = JStr ''valid'', req_evidence = JUndefined\<rparr>"

definition alice_says_invalid :: verify_body where
  "alice_says_invalid =
    \<lparr>req_userId = JStr ''u1'', req_verdict = JStr ''invalid'', req_evidence = JUndefined\<rparr>"

definition contested_verified :: deal where
  "contested_verified =
    contested_deal\<lparr>verifications :=
        verifications contested_deal @ [verdict_by ''v1'' ''u1'' ''alice'' ''valid''],
      status := Verified, verifiedAt := Some 20\<rparr>"

text \<open>A seventh user and her verification request, for the examples.\<close>

definition gina_says_valid :: verify_body where
  "gina_says_valid =
    \<lparr>req_userId = JStr ''u7'', req_verdict = JStr ''valid'', req_evidence = JUndefined\<rparr>"

definition late_verifications :: "event list" where
  "late_verifications =
    [PostVerify ''d1'' alice_says_valid ''v1'' 20, Register (JStr ''gina'') ''u7'' 21,
     PostVerify ''d1'' gina_says_valid ''v8'' 22]"

text \<open>Request bodies as the bundled front end sends them: form fields, as strings.\<close>

definition rtx_body :: deal_body where
  "rtx_body =
    \<lparr>req_title = JStr ''RTX 4080'', req_price = JStr ''650'', req_originalPrice = JStr [],
     req_url = JStr ''http://shop.example/rtx'', req_productCategory = JStr ''Electronics'',
     req_submittedBy = JStr ''u1''\<rparr>"

definition electronics_body :: alert_body where
  "electronics_body =
    \<lparr>req_alert_userId = JStr ''u2'', req_productKeywords = JStr ''Electronics'',
     req_maxPrice = JStr ''700'', req_minVerifications = JStr []\<rparr>"

text \<open>A centralized server where a deal has its five votes and its check is still due.\<close>

definition popular_state :: state where
  "popular_state =
    example_state\<lparr>deals := [(''d1'', rtx_deal\<lparr>votes := 5\<rparr>)], timers := [(''d1'', 10000)]\<rparr>"

text \<open>Votes for the examples.\<close>

definition two_votes :: "event list" where
  "two_votes = [PostVote ''d1'' (JStr ''u2''), PostVote ''d1'' (JStr ''u3'')]"

definition late_votes :: "event list" where
  "late_votes =
    [PostVote ''d1'' (JStr ''u4''), PostVote ''d1'' (JStr ''u5''), PostVote ''d1'' (JStr ''u6''),
     TimerFires ''d1'' 20010]"

text \<open>
  A deal is submitted in centralized mode; then the server is switched to decentralized
  mode and the deal collects five votes, while its promotion check is still due.
\<close>

definition switched_before_check :: "event list" where
  "switched_before_check =
    [PostDeal rtx_body ''d1'' 10, PostMode (JStr ''decentralized''),
     PostVote ''d1'' (JStr ''u2''), PostVote ''d1'' (JStr ''u3''),
     PostVote ''d1'' (JStr ''u4''), PostVote ''d1'' (JStr ''u5''),
     PostVote ''d1'' (JStr ''u6'')]"

text \<open>
  A submission whose title is the JSON number 12345, which the handler accepts, and the
  requests that take it to three \<^verbatim>\<open>valid\<close> verdicts in decentralized mode.
\<close>

definition numeric_body :: deal_body where
  "numeric_body = rtx_body\<lparr>req_title := JNum (Fin 12345)\<rparr>"

definition bob_says_valid :: verify_body where
  "bob_says_valid =
    \<lparr>req_userId = JStr ''u2'', req_verdict = JStr ''valid'', req_evidence = JUndefined\<rparr>"

definition carol_says_valid :: verify_body where
  "carol_says_valid =
    \<lparr>req_userId = JStr ''u3'', req_verdict = JStr ''valid'', req_evidence = JUndefined\<rparr>"

definition numeric_title_run :: "event list" where
  "numeric_title_run =
    [PostMode (JStr ''decentralized''), PostDeal numeric_body ''d1'' 10,
     PostVerify ''d1'' alice_says_valid ''v1'' 20, PostVerify ''d1'' bob_says_valid ''v2'' 21]"

text \<open>The contested deal with such a title.\<close>

definition numeric_state :: state where
  "numeric_state =
    contested_state\<lparr>deals := [(''d1'', contested_deal\<lparr>title := JNum (Fin 12345)\<rparr>)]\<rparr>"

text \<open>An alert request with the minimum typed into the form as 0, and one for laptops.\<close>

definition zero_body :: alert_body where
  "zero_body = electronics_body\<lparr>req_minVerifications := JStr ''0''\<rparr>"

definition laptop_body :: alert_body where
  "laptop_body =
    \<lparr>req_alert_userId = JStr ''u2'', req_productKeywords = JStr ''Laptop'',
     req_maxPrice = JStr ''500'', req_minVerifications = JStr ''1''\<rparr>"


section \<open>Evaluating the examples\<close>

lemmas example_defs = example_state_def init_state_def six_users_def mk_user_def verdict_by_def
  rtx_deal_def three_valid_def rtx_verified_def electronics_alert_def laptop_alert_def
  laptop_deal_def contested_deal_def contested_state_def alice_says_valid_def
  alice_says_invalid_def contested_verified_def rtx_body_def electronics_body_def
  popular_state_def gina_says_valid_def late_verifications_def two_votes_def late_votes_def
  switched_before_check_def numeric_body_def bob_says_valid_def carol_says_valid_def
  numeric_title_run_def numeric_state_def zero_body_def laptop_body_def

lemmas ascii_defs = ascii_builtins_def ascii_lower_def decimal_def digit_of_def is_space_def

lemmas handler_defs = post_register_def post_deals_def new_deal_def post_vote_def
  post_verify_def new_verification_def record_verification_def post_alerts_def new_alert_def
  delete_alert_def post_mode_def timer_fires_def checkPromotion_def checkConsensus_def
  checkAlertsForDeal_def checkAlert_def keywordsMatch_def priceMatch_def verificationMatch_def
  js_ge_def validVerifications_def invalidVerifications_def CONSENSUS_THRESHOLD_def
  next_state_def sent_def status_of_def Let_def

section \<open>Alert evaluation\<close>

lemma count_triggers_simps [simp]:
  "count_triggers a d [] = 0"
  "count_triggers a d (ms @ ms') = count_triggers a d ms + count_triggers a d ms'"
  "count_triggers a d (m # ms) = (if is_trigger a d m then 1 else 0) + count_triggers a d ms"
  by (simp_all add: count_triggers_def)

lemma checkAlert_count:
  "count_triggers k d (fst (snd (checkAlert B now deal a))) =
    (if alert_id a = k \<and> deal_id deal = d \<and> keywordsMatch B deal a = Some True \<and>
        priceMatch deal a \<and> verificationMatch B deal a \<and> deal_id deal \<notin> set (triggered a)
     then 1 else 0)"
  by (auto simp: checkAlert_def split: option.splits)


text \<open>A throw cuts the loop short, so an alert may get less than its own visit gives.\<close>

lemma checkAlerts_each_count_le:
  "alerts_wf al \<Longrightarrow>
   count_triggers k d (fst (snd (checkAlerts_each B now deal al))) \<le>
     (case map_of al k of None \<Rightarrow> 0
      | Some a \<Rightarrow> count_triggers k d (fst (snd (checkAlert B now deal a))))"
proof (induction al)
  case Nil
  then show ?case by simp
next
  case (Cons p al)
  obtain k' a' where p: "p = (k', a')" by (cases p)
  from Cons.prems have wf: "alerts_wf al" and id: "alert_id a' = k'"
    and nin: "k' \<notin> fst ` set al"
    by (auto simp: alerts_wf_def p)
  have IH: "count_triggers k d (fst (snd (checkAlerts_each B now deal al))) \<le>
     (case map_of al k of None \<Rightarrow> 0
      | Some a \<Rightarrow> count_triggers k d (fst (snd (checkAlert B now deal a))))"
    using Cons.IH wf by simp
  show ?case
  proof (cases "k' = k")
    case True
    with nin have "map_of al k = None" by (simp add: map_of_eq_None_iff)
    with IH True show ?thesis by (simp add: p case_prod_beta)
  next
    case False
    with id have "count_triggers k d (fst (snd (checkAlert B now deal a'))) = 0"
      by (simp add: checkAlert_count)
    with IH False show ?thesis by (simp add: p case_prod_beta)
  qed
qed





section \<open>Consensus\<close>

lemma checkAlertsForDeal_fields [simp]:
  "deals (fst (checkAlertsForDeal B now deal s)) = deals s"
  "users (fst (checkAlertsForDeal B now deal s)) = users s"
  "all_verifications (fst (checkAlertsForDeal B now deal s)) = all_verifications s"
  "config (fst (checkAlertsForDeal B now deal s)) = config s"
  "timers (fst (checkAlertsForDeal B now deal s)) = timers s"
  by (simp_all add: checkAlertsForDeal_def case_prod_beta)

lemma checkConsensus_deal:
  "fst (checkConsensus B now d deal s) =
    (if CONSENSUS_THRESHOLD \<le> validVerifications deal \<and> status deal = Pending
     then deal\<lparr>status := Verified, verifiedAt := Some now\<rparr>
     else if CONSENSUS_THRESHOLD \<le> invalidVerifications deal \<and> status deal = Pending
     then deal\<lparr>status := Rejected\<rparr>
     else deal)"
  by (simp add: checkConsensus_def Let_def case_prod_beta)

lemma checkConsensus_stored:
  "map_of (deals s) d = Some deal \<Longrightarrow>
   map_of (deals (fst (snd (checkConsensus B now d deal s)))) d =
     Some (fst (checkConsensus B now d deal s))"
  by (simp add: checkConsensus_def Let_def case_prod_beta update_conv')

lemma record_verification_fields [simp]:
  "deals (record_verification d deal user v s) =
     AList.update d (deal\<lparr>verifications := verifications deal @ [v]\<rparr>) (deals s)"
  "alerts (record_verification d deal user v s) = alerts s"
  "config (record_verification d deal user v s) = config s"
  "timers (record_verification d deal user v s) = timers s"
  by (simp_all add: record_verification_def)

text \<open>
  A verification request either is refused, and then changes and sends nothing, or
  passes the three checks and records the verification.
\<close>

lemma post_verify_refused:
  assumes "\<not> (\<exists>deal user. map_of (deals s) d = Some deal \<and>
      get_opt (users s) (req_userId body) = Some user \<and>
      \<not> list_ex (\<lambda>v. verifierId v = str_of (req_userId body)) (verifications deal))"
  shows "next_state B s (PostVerify d body newId now) = s"
    and "sent B s (PostVerify d body newId now) = []"
    and "fst (post_verify B d body newId now s) \<noteq> Success_verification v dl"
    and "fst (post_verify B d body newId now s) \<noteq> TypeError_thrown"
  using assms
  by (auto simp: next_state_def sent_def post_verify_def split: option.splits)

lemma post_verify_recorded:
  assumes "map_of (deals s) d = Some deal"
    and "get_opt (users s) (req_userId body) = Some user"
    and "\<not> list_ex (\<lambda>v. verifierId v = str_of (req_userId body)) (verifications deal)"
    and "v = new_verification deal user body newId now"
    and "deal1 = deal\<lparr>verifications := verifications deal @ [v]\<rparr>"
    and "s1 = record_verification d deal user v s"
  shows "post_verify B d body newId now s =
       (case (if mode (config s) = Decentralized then checkConsensus B now d deal1 s1
              else (deal1, s1, [], False)) of
          (deal2, s2, ms, thrown) \<Rightarrow>
            if thrown then (TypeError_thrown, s2, ms)
            else (Success_verification v deal2, s2, ms @ [DEAL_UPDATED deal2]))"
  using assms(1-3) unfolding assms(4-6) by (simp add: post_verify_def Let_def)

lemma post_verify_Success:
  assumes "fst (post_verify B d body newId now s) = Success_verification v deal'"
  shows "\<exists>deal user.
     map_of (deals s) d = Some deal \<and> get_opt (users s) (req_userId body) = Some user \<and>
     \<not> list_ex (\<lambda>v. verifierId v = str_of (req_userId body)) (verifications deal) \<and>
     v = new_verification deal user body newId now"
proof (rule ccontr)
  assume "\<not> ?thesis"
  then have "\<not> (\<exists>deal user. map_of (deals s) d = Some deal \<and>
      get_opt (users s) (req_userId body) = Some user \<and>
      \<not> list_ex (\<lambda>v. verifierId v = str_of (req_userId body)) (verifications deal)) \<or>
    (\<exists>deal user. map_of (deals s) d = Some deal \<and>
      get_opt (users s) (req_userId body) = Some user \<and>
      \<not> list_ex (\<lambda>v. verifierId v = str_of (req_userId body)) (verifications deal) \<and>
      v \<noteq> new_verification deal user body newId now)"
    by blast
  then show False
  proof
    assume "\<not> (\<exists>deal user. map_of (deals s) d = Some deal \<and>
      get_opt (users s) (req_userId body) = Some user \<and>
      \<not> list_ex (\<lambda>v. verifierId v = str_of (req_userId body)) (verifications deal))"
    from post_verify_refused(3) [OF this] assms show False by blast
  next
    assume "\<exists>deal user. map_of (deals s) d = Some deal \<and>
      get_opt (users s) (req_userId body) = Some user \<and>
      \<not> list_ex (\<lambda>v. verifierId v = str_of (req_userId body)) (verifications deal) \<and>
      v \<noteq> new_verification deal user body newId now"
    then obtain deal user where 1: "map_of (deals s) d = Some deal"
      "get_opt (users s) (req_userId body) = Some user"
      "\<not> list_ex (\<lambda>v. verifierId v = str_of (req_userId body)) (verifications deal)"
      and ne: "v \<noteq> new_verification deal user body newId now"
      by blast
    from post_verify_recorded [OF 1 refl refl refl, of B newId now] assms ne show False
      by (auto simp: case_prod_beta split: if_splits)
  qed
qed

text \<open>The state and the deal after a verification that was recorded.\<close>

lemma post_verify_recorded_state:
  assumes "map_of (deals s) d = Some deal"
    and "get_opt (users s) (req_userId body) = Some user"
    and "\<not> list_ex (\<lambda>v. verifierId v = str_of (req_userId body)) (verifications deal)"
    and "v = new_verification deal user body newId now"
    and "deal1 = deal\<lparr>verifications := verifications deal @ [v]\<rparr>"
    and "s1 = record_verification d deal user v s"
  shows "next_state B s (PostVerify d body newId now) =
          (if mode (config s) = Decentralized then fst (snd (checkConsensus B now d deal1 s1))
           else s1)"
    and "map_of (deals (next_state B s (PostVerify d body newId now))) =
          (map_of (deals s))(d \<mapsto> (if mode (config s) = Decentralized
             then fst (checkConsensus B now d deal1 s1) else deal1))"
proof -
  show 1: "next_state B s (PostVerify d body newId now) =
          (if mode (config s) = Decentralized then fst (snd (checkConsensus B now d deal1 s1))
           else s1)"
    using post_verify_recorded [OF assms, of B] assms(6)
    by (simp add: next_state_def case_prod_beta)
  have s1: "map_of (deals s1) = (map_of (deals s))(d \<mapsto> deal1)"
    by (simp add: assms(5,6) update_conv')
  then have "map_of (deals s1) d = Some deal1" by simp
  then have "map_of (deals (fst (snd (checkConsensus B now d deal1 s1)))) =
      (map_of (deals s1))(d \<mapsto> fst (checkConsensus B now d deal1 s1))"
    by (auto simp: checkConsensus_def Let_def case_prod_beta update_conv')
  with s1 show "map_of (deals (next_state B s (PostVerify d body newId now))) =
          (map_of (deals s))(d \<mapsto> (if mode (config s) = Decentralized
             then fst (checkConsensus B now d deal1 s1) else deal1))"
    by (simp add: 1)
qed

section \<open>How the events change a stored deal\<close>

lemma allowed_transition_refl [simp]: "allowed_transition st st"
  by (simp add: allowed_transition_def)

lemma allowed_transition_Pending [simp]: "allowed_transition Pending st"
  by (cases st) (simp_all add: allowed_transition_def)

lemma allowed_transition_trans:
  "allowed_transition a b \<Longrightarrow> allowed_transition b c \<Longrightarrow> allowed_transition a c"
  by (auto simp: allowed_transition_def)

lemma deal_evolves_refl [simp]: "deal_evolves deal deal"
  by (simp add: deal_evolves_def)

lemma deal_evolves_trans:
  assumes "deal_evolves a b" and "deal_evolves b c"
  shows "deal_evolves a c"
proof -
  from assms have "take (length (verifications a)) (verifications b) = verifications a"
    and "take (length (verifications b)) (verifications c) = verifications b"
    by (simp_all add: deal_evolves_def)
  then have "take (length (verifications a)) (verifications c) = verifications a"
    by (metis append_eq_conv_conj append_take_drop_id append.assoc)
  with assms show ?thesis
    by (auto simp: deal_evolves_def intro: allowed_transition_trans)
qed

lemma checkPromotion_deals:
  "map_of (deals (fst (checkPromotion B now d s))) =
    (case map_of (deals s) d of
       None \<Rightarrow> map_of (deals s)
     | Some deal \<Rightarrow>
        if status deal = Pending \<and> promotionThreshold (config s) \<le> votes deal
        then (map_of (deals s))(d \<mapsto> deal\<lparr>status := Promoted, promotedAt := Some now\<rparr>)
        else map_of (deals s))"
  by (simp add: checkPromotion_def Let_def case_prod_beta update_conv' split: option.splits)

lemma checkConsensus_deals:
  "map_of (deals s) d = Some deal \<Longrightarrow>
   map_of (deals (fst (snd (checkConsensus B now d deal s)))) =
     (map_of (deals s))(d \<mapsto> fst (checkConsensus B now d deal s))"
  by (auto simp: checkConsensus_def Let_def case_prod_beta update_conv')

lemma checkConsensus_evolves: "deal_evolves deal (fst (checkConsensus B now d deal s))"
  by (simp add: checkConsensus_deal deal_evolves_def)

lemma step_deal:
  assumes "fresh s e" and "map_of (deals s) d = Some deal"
  shows "\<exists>deal'. map_of (deals (next_state B s e)) d = Some deal' \<and> deal_evolves deal deal'"
proof (cases e)
  case (Register uname newId now)
  with assms show ?thesis
    by (auto simp: next_state_def post_register_def Let_def split: option.splits)
next
  case (PostDeal body newId now)
  with assms have "newId \<noteq> d" by auto
  with PostDeal assms show ?thesis
    by (auto simp: next_state_def post_deals_def Let_def update_conv' split: option.splits)
next
  case (PostVote d' uid)
  with assms show ?thesis
    by (auto simp: next_state_def post_vote_def Let_def update_conv' deal_evolves_def
        split: option.splits)
next
  case (PostVerify d' body newId now)
  show ?thesis
  proof (cases "\<exists>deal0 user. map_of (deals s) d' = Some deal0 \<and>
      get_opt (users s) (req_userId body) = Some user \<and>
      \<not> list_ex (\<lambda>v. verifierId v = str_of (req_userId body)) (verifications deal0)")
    case False
    from post_verify_refused(1) [OF False] PostVerify assms show ?thesis by simp
  next
    case True
    then obtain deal0 user where d0: "map_of (deals s) d' = Some deal0"
      and u0: "get_opt (users s) (req_userId body) = Some user"
      and nd: "\<not> list_ex (\<lambda>v. verifierId v = str_of (req_userId body)) (verifications deal0)"
      by blast
    define v where "v = new_verification deal0 user body newId now"
    define deal1 where "deal1 = deal0\<lparr>verifications := verifications deal0 @ [v]\<rparr>"
    define s1 where "s1 = record_verification d' deal0 user v s"
    have e1: "deal_evolves deal0 deal1" by (simp add: deal1_def deal_evolves_def)
    have e2: "deal_evolves deal1 (fst (checkConsensus B now d' deal1 s1))"
      by (rule checkConsensus_evolves)
    have "map_of (deals (next_state B s (PostVerify d' body newId now))) =
        (map_of (deals s))(d' \<mapsto> (if mode (config s) = Decentralized
           then fst (checkConsensus B now d' deal1 s1) else deal1))"
      by (rule post_verify_recorded_state(2) [OF d0 u0 nd v_def deal1_def s1_def])
    with PostVerify assms d0 e1 e2 deal_evolves_trans [OF e1 e2] show ?thesis
      by auto
  qed
next
  case (PostAlert body newId now)
  with assms show ?thesis
    by (auto simp: next_state_def post_alerts_def Let_def split: option.splits)
next
  case (DeleteAlert a)
  with assms show ?thesis by (simp add: next_state_def delete_alert_def)
next
  case (PostMode m)
  with assms show ?thesis by (simp add: next_state_def post_mode_def Let_def)
next
  case (TimerFires d' now)
  with assms show ?thesis
    by (auto simp: next_state_def timer_fires_def case_prod_beta checkPromotion_deals
        deal_evolves_def split: option.splits)
qed

lemma run_deal:
  "fresh_run B s es \<Longrightarrow> map_of (deals s) d = Some deal \<Longrightarrow>
   \<exists>deal'. map_of (deals (run B s es)) d = Some deal' \<and> deal_evolves deal deal'"
proof (induction es arbitrary: s deal)
  case Nil
  then show ?case by simp
next
  case (Cons e es)
  from Cons.prems obtain deal1 where
    1: "map_of (deals (next_state B s e)) d = Some deal1" and 2: "deal_evolves deal deal1"
    using step_deal [of s e d deal B] by auto
  from Cons.IH [OF _ 1] Cons.prems obtain deal' where
    "map_of (deals (run B (next_state B s e) es)) d = Some deal'" "deal_evolves deal1 deal'"
    by auto
  with 2 show ?case by (auto intro: deal_evolves_trans)
qed


section \<open>Users and repeated verifications\<close>

lemma checkConsensus_users [simp]:
  "users (fst (snd (checkConsensus B now d deal s))) = users s"
  "all_verifications (fst (snd (checkConsensus B now d deal s))) = all_verifications s"
  "config (fst (snd (checkConsensus B now d deal s))) = config s"
  "timers (fst (snd (checkConsensus B now d deal s))) = timers s"
  by (simp_all add: checkConsensus_def Let_def case_prod_beta)

lemma checkPromotion_users [simp]:
  "users (fst (checkPromotion B now d s)) = users s"
  "all_verifications (fst (checkPromotion B now d s)) = all_verifications s"
  "config (fst (checkPromotion B now d s)) = config s"
  "timers (fst (checkPromotion B now d s)) = timers s"
  by (simp_all add: checkPromotion_def Let_def case_prod_beta split: option.splits)

lemma step_user:
  assumes "map_of (users s) u = Some user"
  shows "\<exists>user'. map_of (users (next_state B s e)) u = Some user'"
proof (cases e)
  case (PostVerify d' body newId now)
  show ?thesis
  proof (cases "\<exists>deal0 user0. map_of (deals s) d' = Some deal0 \<and>
      get_opt (users s) (req_userId body) = Some user0 \<and>
      \<not> list_ex (\<lambda>v. verifierId v = str_of (req_userId body)) (verifications deal0)")
    case False
    from post_verify_refused(1) [OF False] PostVerify assms show ?thesis by simp
  next
    case True
    then obtain deal0 user0 where d0: "map_of (deals s) d' = Some deal0"
      and u0: "get_opt (users s) (req_userId body) = Some user0"
      and nd: "\<not> list_ex (\<lambda>v. verifierId v = str_of (req_userId body)) (verifications deal0)"
      by blast
    from post_verify_recorded_state(1) [OF d0 u0 nd refl refl refl, of B newId now] assms PostVerify
    show ?thesis by (simp add: record_verification_def update_conv')
  qed
next
  case (TimerFires d' now)
  with assms show ?thesis by (simp add: next_state_def timer_fires_def case_prod_beta)
qed (use assms in \<open>auto simp: next_state_def post_register_def post_deals_def post_vote_def
      post_alerts_def delete_alert_def post_mode_def Let_def update_conv' split: option.splits\<close>)

lemma run_user:
  "map_of (users s) u = Some user \<Longrightarrow> \<exists>user'. map_of (users (run B s es)) u = Some user'"
proof (induction es arbitrary: s user)
  case Nil
  then show ?case by simp
next
  case (Cons e es)
  from step_user [OF Cons.prems, of B e] obtain user1 where
    "map_of (users (next_state B s e)) u = Some user1" by blast
  from Cons.IH [OF this] show ?case by simp
qed

text \<open>
  After a verification that was recorded the deal names the verifier and the verifier is
  still a user, whether or not the evaluation of the alerts threw afterwards.
\<close>

lemma post_verify_after:
  assumes "map_of (deals s) d = Some deal0"
    and "get_opt (users s) (req_userId body) = Some user"
    and "\<not> list_ex (\<lambda>v. verifierId v = str_of (req_userId body)) (verifications deal0)"
  shows "\<exists>dl. map_of (deals (next_state B s (PostVerify d body newId now))) d = Some dl \<and>
         list_ex (\<lambda>v. verifierId v = str_of (req_userId body)) (verifications dl) \<and>
         (\<exists>user'. get_opt (users (next_state B s (PostVerify d body newId now)))
            (req_userId body) = Some user')"
proof -
  define v where "v = new_verification deal0 user body newId now"
  define deal1 where "deal1 = deal0\<lparr>verifications := verifications deal0 @ [v]\<rparr>"
  define s1 where "s1 = record_verification d deal0 user v s"
  define dl where "dl = (if mode (config s) = Decentralized
      then fst (checkConsensus B now d deal1 s1) else deal1)"
  from assms(2) obtain u where u: "req_userId body = JStr u" "map_of (users s) u = Some user"
    by (cases "req_userId body") auto
  have vid: "verifierId v = u" by (simp add: v_def new_verification_def u)
  have s1u: "\<exists>user'. map_of (users s1) u = Some user'"
    by (simp add: s1_def record_verification_def update_conv' vid)
  have vs: "verifications dl = verifications deal0 @ [v]"
    by (simp add: dl_def checkConsensus_deal deal1_def)
  have st: "next_state B s (PostVerify d body newId now) = (if mode (config s) = Decentralized
      then fst (snd (checkConsensus B now d deal1 s1)) else s1)"
    by (rule post_verify_recorded_state(1) [OF assms v_def deal1_def s1_def])
  have "map_of (deals (next_state B s (PostVerify d body newId now))) =
      (map_of (deals s))(d \<mapsto> dl)"
    unfolding dl_def by (rule post_verify_recorded_state(2) [OF assms v_def deal1_def s1_def])
  then have 1: "map_of (deals (next_state B s (PostVerify d body newId now))) d = Some dl"
    by simp
  have 2: "list_ex (\<lambda>v. verifierId v = str_of (req_userId body)) (verifications dl)"
    by (simp add: vs vid u list_ex_iff)
  have 3: "\<exists>user'. get_opt (users (next_state B s (PostVerify d body newId now)))
      (req_userId body) = Some user'"
    using s1u by (simp add: st u)
  from 1 2 3 show ?thesis by blast
qed

lemma deal_evolves_list_ex:
  assumes "deal_evolves deal deal'" and "list_ex P (verifications deal)"
  shows "list_ex P (verifications deal')"
proof -
  from assms(1) have "take (length (verifications deal)) (verifications deal') = verifications deal"
    by (simp add: deal_evolves_def)
  then have "set (verifications deal) \<subseteq> set (verifications deal')"
    by (metis set_take_subset)
  with assms(2) show ?thesis by (auto simp: list_ex_iff)
qed

lemma post_verify_duplicate:
  "map_of (deals s) d = Some deal \<Longrightarrow> get_opt (users s) (req_userId body) = Some user \<Longrightarrow>
   list_ex (\<lambda>v. verifierId v = str_of (req_userId body)) (verifications deal) \<Longrightarrow>
   post_verify B d body newId now s =
     (Failure DuplicateError ''You already verified this deal'', s, [])"
  by (simp add: post_verify_def)

text \<open>A request that was answered with success, or left by an exception, was recorded.\<close>

lemma post_verify_answered:
  assumes "fst (post_verify B d body newId now s) = Success_verification v dl \<or>
           fst (post_verify B d body newId now s) = TypeError_thrown"
  shows "\<exists>deal0 user. map_of (deals s) d = Some deal0 \<and>
      get_opt (users s) (req_userId body) = Some user \<and>
      \<not> list_ex (\<lambda>v. verifierId v = str_of (req_userId body)) (verifications deal0)"
proof (rule ccontr)
  assume n: "\<not> ?thesis"
  from post_verify_refused(3) [OF n, of B newId now v dl]
    post_verify_refused(4) [OF n, of B newId now] assms
  show False by blast
qed


section \<open>Promotion and the alerts\<close>

lemma checkAlertsForDeal_msgs:
  "fst (snd (checkAlertsForDeal B now deal s)) =
     fst (snd (checkAlerts_each B now deal (alerts s)))"
  "snd (snd (checkAlertsForDeal B now deal s)) =
     snd (snd (checkAlerts_each B now deal (alerts s)))"
  "alerts (fst (checkAlertsForDeal B now deal s)) = fst (checkAlerts_each B now deal (alerts s))"
  by (simp_all add: checkAlertsForDeal_def case_prod_beta)

lemma checkPromotion_sent:
  "fst (snd (checkPromotion B now d s)) =
    (case map_of (deals s) d of
       None \<Rightarrow> []
     | Some deal \<Rightarrow>
        if status deal = Pending \<and> promotionThreshold (config s) \<le> votes deal
        then DEAL_PROMOTED (deal\<lparr>status := Promoted, promotedAt := Some now\<rparr>) #
             fst (snd (checkAlerts_each B now
               (deal\<lparr>status := Promoted, promotedAt := Some now\<rparr>) (alerts s)))
        else [])"
  by (simp add: checkPromotion_def Let_def case_prod_beta checkAlertsForDeal_msgs
      split: option.splits)

lemma checkConsensus_sent:
  "fst (snd (snd (checkConsensus B now d deal s))) =
    (if CONSENSUS_THRESHOLD \<le> validVerifications deal \<and> status deal = Pending
     then DEAL_VERIFIED (deal\<lparr>status := Verified, verifiedAt := Some now\<rparr>) #
          fst (snd (checkAlerts_each B now
            (deal\<lparr>status := Verified, verifiedAt := Some now\<rparr>) (alerts s)))
     else if CONSENSUS_THRESHOLD \<le> invalidVerifications deal \<and> status deal = Pending
     then [DEAL_REJECTED (deal\<lparr>status := Rejected\<rparr>)]
     else [])"
  by (simp add: checkConsensus_def Let_def case_prod_beta checkAlertsForDeal_msgs)

section \<open>When the alerts are evaluated\<close>

lemma alert_msgs_simps [simp]:
  "alert_msgs [] = []"
  "alert_msgs (m # ms) = (if is_alert_msg m then m # alert_msgs ms else alert_msgs ms)"
  "alert_msgs (ms @ ms') = alert_msgs ms @ alert_msgs ms'"
  by (simp_all add: alert_msgs_def)

lemma alert_msgs_checkAlert [simp]:
  "alert_msgs (fst (snd (checkAlert B now deal a))) = fst (snd (checkAlert B now deal a))"
  by (simp add: checkAlert_def split: option.splits)

lemma alert_msgs_checkAlerts_each [simp]:
  "alert_msgs (fst (snd (checkAlerts_each B now deal al))) =
     fst (snd (checkAlerts_each B now deal al))"
  by (induction al) (auto simp: case_prod_beta)

lemma checkConsensus_alerts:
  "alerts (fst (snd (checkConsensus B now d deal s))) =
    (if CONSENSUS_THRESHOLD \<le> validVerifications deal \<and> status deal = Pending
     then fst (checkAlerts_each B now (deal\<lparr>status := Verified, verifiedAt := Some now\<rparr>) (alerts s))
     else alerts s)"
  "alert_msgs (fst (snd (snd (checkConsensus B now d deal s)))) =
    (if CONSENSUS_THRESHOLD \<le> validVerifications deal \<and> status deal = Pending
     then fst (snd (checkAlerts_each B now (deal\<lparr>status := Verified, verifiedAt := Some now\<rparr>)
            (alerts s)))
     else [])"
  by (simp_all add: checkConsensus_def Let_def case_prod_beta checkAlertsForDeal_msgs)

lemma checkPromotion_alerts:
  "alerts (fst (checkPromotion B now d s)) =
    (case map_of (deals s) d of
       None \<Rightarrow> alerts s
     | Some deal \<Rightarrow>
        if status deal = Pending \<and> promotionThreshold (config s) \<le> votes deal
        then fst (checkAlerts_each B now (deal\<lparr>status := Promoted, promotedAt := Some now\<rparr>)
               (alerts s))
        else alerts s)"
  "alert_msgs (fst (snd (checkPromotion B now d s))) =
    (case map_of (deals s) d of
       None \<Rightarrow> []
     | Some deal \<Rightarrow>
        if status deal = Pending \<and> promotionThreshold (config s) \<le> votes deal
        then fst (snd (checkAlerts_each B now (deal\<lparr>status := Promoted, promotedAt := Some now\<rparr>)
               (alerts s)))
        else [])"
  by (simp_all add: checkPromotion_def Let_def case_prod_beta checkAlertsForDeal_msgs
      split: option.splits)

lemma vote_not_evaluated:
  "not_evaluated s (next_state B s (PostVote d uid)) (sent B s (PostVote d uid))"
  by (simp add: not_evaluated_def next_state_def sent_def post_vote_def Let_def
      split: option.splits)

lemma plain_not_evaluated:
  "not_evaluated s (next_state B s (Register uname newId now))
     (sent B s (Register uname newId now))"
  "not_evaluated s (next_state B s (PostDeal dbody newId now))
     (sent B s (PostDeal dbody newId now))"
  "not_evaluated s (next_state B s (PostMode m)) (sent B s (PostMode m))"
  by (simp_all add: not_evaluated_def next_state_def sent_def post_register_def post_deals_def
      post_mode_def Let_def split: option.splits)

text \<open>
  Creating and deleting an alert send nothing and evaluate nothing: the one stores the
  new alert, which has triggered for no deal, the other removes one.
\<close>

lemma post_alerts_frame:
  "alert_msgs (sent B s (PostAlert abody newId now)) = []"
  "alerts (next_state B s (PostAlert abody newId now)) =
    (case fst (post_alerts B abody newId now s) of
       Success_alert a \<Rightarrow> AList.update newId (a\<lparr>triggered := []\<rparr>) (alerts s)
     | _ \<Rightarrow> alerts s)"
  by (simp_all add: next_state_def sent_def post_alerts_def Let_def new_alert_def
      split: option.splits)

lemma delete_alert_frame:
  "alert_msgs (sent B s (DeleteAlert k)) = []"
  "alerts (next_state B s (DeleteAlert k)) = AList.delete k (alerts s)"
  by (simp_all add: next_state_def sent_def delete_alert_def)

lemma timer_evaluated:
  "if became s (next_state B s (TimerFires d now)) d Promoted
   then \<exists>deal'. map_of (deals (next_state B s (TimerFires d now))) d = Some deal' \<and>
          evaluated_for B now deal' s (next_state B s (TimerFires d now))
            (sent B s (TimerFires d now))
   else not_evaluated s (next_state B s (TimerFires d now)) (sent B s (TimerFires d now))"
proof (cases "list_ex (\<lambda>t. fst t = d) (timers s)")
  case False
  then show ?thesis
    by (auto simp: next_state_def sent_def timer_fires_def not_evaluated_def became_def)
next
  case True
  define s0 where "s0 = s\<lparr>timers := remove_timer d (timers s)\<rparr>"
  have ns: "next_state B s (TimerFires d now) = fst (checkPromotion B now d s0)"
    and se: "sent B s (TimerFires d now) = fst (snd (checkPromotion B now d s0))"
    using True by (simp_all add: next_state_def sent_def timer_fires_def case_prod_beta s0_def)
  have s0: "deals s0 = deals s" "alerts s0 = alerts s" "config s0 = config s"
    by (simp_all add: s0_def)
  show ?thesis
  proof (cases "map_of (deals s) d")
    case None
    then show ?thesis
      by (simp add: ns se became_def status_of_def not_evaluated_def checkPromotion_alerts s0
          checkPromotion_deals)
  next
    case (Some deal)
    then show ?thesis
      by (auto simp: ns se became_def status_of_def not_evaluated_def evaluated_for_def
          checkPromotion_alerts s0 checkPromotion_deals)
  qed
qed

lemma verify_evaluated:
  "if became s (next_state B s (PostVerify d body newId now)) d Verified
   then \<exists>deal'. map_of (deals (next_state B s (PostVerify d body newId now))) d = Some deal' \<and>
          evaluated_for B now deal' s (next_state B s (PostVerify d body newId now))
            (sent B s (PostVerify d body newId now))
   else not_evaluated s (next_state B s (PostVerify d body newId now))
          (sent B s (PostVerify d body newId now))"
proof (cases "\<exists>deal0 user. map_of (deals s) d = Some deal0 \<and>
      get_opt (users s) (req_userId body) = Some user \<and>
      \<not> list_ex (\<lambda>v. verifierId v = str_of (req_userId body)) (verifications deal0)")
  case False
  from post_verify_refused(1,2) [OF False]
  show ?thesis by (auto simp: became_def not_evaluated_def)
next
  case True
  then obtain deal0 user where d0: "map_of (deals s) d = Some deal0"
    and u0: "get_opt (users s) (req_userId body) = Some user"
    and nd: "\<not> list_ex (\<lambda>v. verifierId v = str_of (req_userId body)) (verifications deal0)"
    by blast
  define v where "v = new_verification deal0 user body newId now"
  define deal1 where "deal1 = deal0\<lparr>verifications := verifications deal0 @ [v]\<rparr>"
  define s1 where "s1 = record_verification d deal0 user v s"
  note pv = post_verify_recorded [OF d0 u0 nd v_def deal1_def s1_def, of B]
  have s1d: "map_of (deals s1) d = Some deal1"
    by (simp add: s1_def deal1_def update_conv')
  have s1a: "alerts s1 = alerts s" by (simp add: s1_def)
  have st1: "status deal1 = status deal0" by (simp add: deal1_def)
  show ?thesis
  proof (cases "mode (config s) = Decentralized")
    case False
    with pv have "next_state B s (PostVerify d body newId now) = s1"
      "sent B s (PostVerify d body newId now) = [DEAL_UPDATED deal1]"
      by (simp_all add: next_state_def sent_def)
    with d0 s1d st1 s1a show ?thesis
      by (auto simp: became_def status_of_def not_evaluated_def)
  next
    case True
    with pv have ns: "next_state B s (PostVerify d body newId now) =
        fst (snd (checkConsensus B now d deal1 s1))"
      and se: "alert_msgs (sent B s (PostVerify d body newId now)) =
        alert_msgs (fst (snd (snd (checkConsensus B now d deal1 s1))))"
      by (simp_all add: next_state_def sent_def case_prod_beta)
    have stored: "map_of (deals (fst (snd (checkConsensus B now d deal1 s1)))) d =
        Some (fst (checkConsensus B now d deal1 s1))"
      by (rule checkConsensus_stored [OF s1d])
    show ?thesis
      using d0 st1 s1a
      by (auto simp: ns se stored became_def status_of_def not_evaluated_def evaluated_for_def
          checkConsensus_alerts checkConsensus_deal)
  qed
qed

section \<open>Notifications over a run\<close>

lemma list_all_update:
  "list_all P al \<Longrightarrow> P (k, v) \<Longrightarrow> list_all P (AList.update k v al)"
  by (induction al) auto

lemma alerts_wf_update:
  assumes "alerts_wf al" and "alert_id a = k"
  shows "alerts_wf (AList.update k a al)"
  using assms by (simp add: alerts_wf_def distinct_update list_all_update)

lemma alerts_wf_delete:
  assumes "alerts_wf al"
  shows "alerts_wf (AList.delete k al)"
proof -
  from assms have "distinct (map fst (AList.delete k al))"
    by (simp add: alerts_wf_def distinct_delete)
  moreover from assms have "list_all (\<lambda>(k, a). alert_id a = k) (AList.delete k al)"
    by (auto simp: alerts_wf_def AList.delete_eq list_all_iff)
  ultimately show ?thesis by (simp add: alerts_wf_def)
qed

lemma checkAlert_alert_id [simp]: "alert_id (fst (checkAlert B now deal a)) = alert_id a"
  by (simp add: checkAlert_def split: option.splits)

lemma checkAlerts_each_keys [simp]:
  "map fst (fst (checkAlerts_each B now deal al)) = map fst al"
  by (induction al) (auto simp: case_prod_beta)

lemma checkAlerts_each_ids:
  "list_all (\<lambda>(k, a). alert_id a = k) al \<Longrightarrow>
   list_all (\<lambda>(k, a). alert_id a = k) (fst (checkAlerts_each B now deal al))"
  by (induction al) (auto simp: case_prod_beta)

lemma alerts_wf_checkAlerts_each:
  assumes "alerts_wf al"
  shows "alerts_wf (fst (checkAlerts_each B now deal al))"
proof -
  from assms have "distinct (map fst (fst (checkAlerts_each B now deal al)))"
    by (simp add: alerts_wf_def)
  moreover from assms
  have "list_all (\<lambda>(k, a). alert_id a = k) (fst (checkAlerts_each B now deal al))"
    by (simp add: alerts_wf_def checkAlerts_each_ids)
  ultimately show ?thesis by (simp add: alerts_wf_def)
qed

lemma checkAlert_potential:
  "alert_id a = k \<Longrightarrow>
   count_triggers k d (fst (snd (checkAlert B now deal a))) + already d a =
     already d (fst (checkAlert B now deal a))"
  by (auto simp: checkAlert_def already_def split: option.splits)

text \<open>
  What an evaluation sends for an alert and what it adds to the triggered set of the
  alert go together, also when the evaluation is cut short by a throw.
\<close>

lemma checkAlerts_each_potential:
  "alerts_wf al \<Longrightarrow> map_of al k = Some a \<Longrightarrow>
   \<exists>a'. map_of (fst (checkAlerts_each B now deal al)) k = Some a' \<and>
     count_triggers k d (fst (snd (checkAlerts_each B now deal al))) + already d a =
       already d a'"
proof (induction al)
  case Nil
  then show ?case by simp
next
  case (Cons p al)
  obtain k' a0 where p: "p = (k', a0)" by (cases p)
  from Cons.prems(1) have wf: "alerts_wf al" and id: "alert_id a0 = k'"
    and nin: "k' \<notin> fst ` set al"
    by (auto simp: alerts_wf_def p)
  show ?case
  proof (cases "k' = k")
    case True
    with Cons.prems(2) have a0: "a0 = a" by (simp add: p)
    from True nin have "map_of al k = None" by (simp add: map_of_eq_None_iff)
    with checkAlerts_each_count_le [OF wf, of k d B now deal]
    have 0: "count_triggers k d (fst (snd (checkAlerts_each B now deal al))) = 0" by simp
    from checkAlert_potential [of a k d B now deal] id True a0
    have "count_triggers k d (fst (snd (checkAlert B now deal a))) + already d a =
        already d (fst (checkAlert B now deal a))" by simp
    with True a0 0 show ?thesis by (simp add: p case_prod_beta)
  next
    case False
    with Cons.prems(2) have m: "map_of al k = Some a" by (simp add: p)
    from False id have 0: "count_triggers k d (fst (snd (checkAlert B now deal a0))) = 0"
      by (simp add: checkAlert_count)
    from Cons.IH [OF wf m] obtain a' where
      "map_of (fst (checkAlerts_each B now deal al)) k = Some a'"
      "count_triggers k d (fst (snd (checkAlerts_each B now deal al))) + already d a =
         already d a'"
      by blast
    with False 0 m show ?thesis
      by (auto simp: p case_prod_beta already_def)
  qed
qed

lemma count_triggers_alert_msgs: "count_triggers k d (alert_msgs ms) = count_triggers k d ms"
proof (induction ms)
  case Nil
  then show ?case by simp
next
  case (Cons m ms)
  then show ?case by (cases m) simp_all
qed

lemma evaluated_potential:
  assumes "alerts_wf (alerts s)" and "map_of (alerts s) k = Some a"
    and "evaluated_for B now deal s s' ms"
  shows "alerts_wf (alerts s') \<and>
    (\<exists>a'. map_of (alerts s') k = Some a' \<and> count_triggers k d ms + already d a = already d a')"
proof -
  from assms(3) have al: "alerts s' = fst (checkAlerts_each B now deal (alerts s))"
    and ms: "alert_msgs ms = fst (snd (checkAlerts_each B now deal (alerts s)))"
    by (simp_all add: evaluated_for_def)
  have c: "count_triggers k d ms =
      count_triggers k d (fst (snd (checkAlerts_each B now deal (alerts s))))"
    using count_triggers_alert_msgs [of k d ms] by (simp add: ms)
  from checkAlerts_each_potential [OF assms(1,2), of B now deal d] obtain a' where
    "map_of (alerts s') k = Some a'" "count_triggers k d ms + already d a = already d a'"
    by (auto simp: al c)
  moreover have "alerts_wf (alerts s')"
    unfolding al by (rule alerts_wf_checkAlerts_each [OF assms(1)])
  ultimately show ?thesis by blast
qed

lemma not_evaluated_potential:
  assumes "alerts_wf (alerts s)" and "map_of (alerts s) k = Some a"
    and "not_evaluated s s' ms"
  shows "alerts_wf (alerts s') \<and>
    (\<exists>a'. map_of (alerts s') k = Some a' \<and> count_triggers k d ms + already d a = already d a')"
proof -
  from assms(3) have "alerts s' = alerts s" "alert_msgs ms = []"
    by (simp_all add: not_evaluated_def)
  with assms(1,2) count_triggers_alert_msgs [of k d ms] show ?thesis by simp
qed

lemma step_alert:
  assumes wf: "alerts_wf (alerts s)" and a: "map_of (alerts s) k = Some a"
    and fr: "fresh s e" and nd: "e \<noteq> DeleteAlert k"
  shows "alerts_wf (alerts (next_state B s e)) \<and>
    (\<exists>a'. map_of (alerts (next_state B s e)) k = Some a' \<and>
       count_triggers k d (sent B s e) + already d a = already d a')"
proof (cases e)
  case (Register uname newId now)
  then have "not_evaluated s (next_state B s e) (sent B s e)"
    by (simp add: plain_not_evaluated)
  from not_evaluated_potential [OF wf a this] show ?thesis .
next
  case (PostDeal body newId now)
  then have "not_evaluated s (next_state B s e) (sent B s e)"
    by (simp add: plain_not_evaluated)
  from not_evaluated_potential [OF wf a this] show ?thesis .
next
  case (PostVote d' uid)
  with vote_not_evaluated [of s B d' uid] not_evaluated_potential [OF wf a] show ?thesis
    by simp
next
  case (PostVerify d' body newId now)
  with verify_evaluated [of s B d' body newId now] not_evaluated_potential [OF wf a]
    evaluated_potential [OF wf a]
  show ?thesis by (auto split: if_splits)
next
  case (PostAlert body newId now)
  with fr a have ne: "newId \<noteq> k" by auto
  from PostAlert have se: "sent B s e = []"
    by (simp add: sent_def post_alerts_def Let_def split: option.splits)
  show ?thesis
  proof (cases "\<exists>a0. fst (post_alerts B body newId now s) = Success_alert a0")
    case False
    then have "alerts (next_state B s (PostAlert body newId now)) = alerts s"
      by (auto simp: post_alerts_frame split: response.splits)
    with PostAlert se wf a show ?thesis by simp
  next
    case True
    then obtain a0 where ok: "fst (post_alerts B body newId now s) = Success_alert a0"
      by blast
    then have id: "alert_id a0 = newId"
      by (auto simp: post_alerts_def Let_def new_alert_def split: option.splits if_splits)
    from ok have "alerts (next_state B s (PostAlert body newId now)) =
        AList.update newId (a0\<lparr>triggered := []\<rparr>) (alerts s)"
      by (simp add: post_alerts_frame)
    moreover have "alerts_wf (AList.update newId (a0\<lparr>triggered := []\<rparr>) (alerts s))"
      by (rule alerts_wf_update [OF wf]) (simp add: id)
    ultimately show ?thesis
      using PostAlert se a ne by (simp add: update_conv')
  qed
next
  case (DeleteAlert k')
  with nd have "k' \<noteq> k" by simp
  with DeleteAlert wf a show ?thesis
    by (simp add: next_state_def sent_def delete_alert_def alerts_wf_delete)
next
  case (PostMode m)
  then have "not_evaluated s (next_state B s e) (sent B s e)"
    by (simp add: plain_not_evaluated)
  from not_evaluated_potential [OF wf a this] show ?thesis .
next
  case (TimerFires d' now)
  with timer_evaluated [of s B d' now] not_evaluated_potential [OF wf a]
    evaluated_potential [OF wf a]
  show ?thesis by (auto split: if_splits)
qed

lemma run_alert:
  "alerts_wf (alerts s) \<Longrightarrow> map_of (alerts s) k = Some a \<Longrightarrow> fresh_run B s es \<Longrightarrow>
   DeleteAlert k \<notin> set es \<Longrightarrow>
   alerts_wf (alerts (run B s es)) \<and>
   (\<exists>a'. map_of (alerts (run B s es)) k = Some a' \<and>
     count_triggers k d (run_sent B s es) + already d a = already d a')"
proof (induction es arbitrary: s a)
  case Nil
  then show ?case by simp
next
  case (Cons e es)
  from Cons.prems have "fresh s e" "e \<noteq> DeleteAlert k" by auto
  from step_alert [OF Cons.prems(1,2) this, of B d] obtain a1 where
    wf1: "alerts_wf (alerts (next_state B s e))"
    and a1: "map_of (alerts (next_state B s e)) k = Some a1"
    and c1: "count_triggers k d (sent B s e) + already d a = already d a1"
    by blast
  from Cons.IH [OF wf1 a1] Cons.prems obtain a' where
    "alerts_wf (alerts (run B (next_state B s e) es))"
    "map_of (alerts (run B (next_state B s e) es)) k = Some a'"
    "count_triggers k d (run_sent B (next_state B s e) es) + already d a1 = already d a'"
    by auto
  with c1 show ?case by auto
qed

section \<open>Scheduled checks over a run\<close>

lemma count_remove_timer:
  "length (filter (\<lambda>t. fst t = d) (remove_timer d' ts)) =
    (if d' = d then length (filter (\<lambda>t. fst t = d) ts) - 1
     else length (filter (\<lambda>t. fst t = d) ts))"
  by (induction ts) auto

lemma no_timer_iff: "list_ex (\<lambda>t. fst t = d) (timers s) = (0 < count_timers d s)"
  by (auto simp: count_timers_def list_ex_iff filter_empty_conv)

lemma count_timers_checkPromotion [simp]:
  "count_timers d (fst (checkPromotion B now d' s)) = count_timers d s"
  by (simp add: count_timers_def)

lemma count_timers_checkConsensus [simp]:
  "count_timers d (fst (snd (checkConsensus B now d' deal s))) = count_timers d s"
  by (simp add: count_timers_def)

lemma deals_unchanged0:
  "deals (next_state B s (Register uname newId now)) = deals s"
  "deals (next_state B s (PostAlert abody newId now)) = deals s"
  by (simp_all add: next_state_def post_register_def post_alerts_def Let_def
      split: option.splits)

lemma post_deals_timers:
  "timers (next_state B s (PostDeal body newId now)) =
    (if mode (config s) = Centralized \<and>
        (\<exists>deal. fst (post_deals B body newId now s) = Success_deal deal)
     then timers s @ [(newId, promotionDelaySimulated (config s))]
     else timers s)"
  by (auto simp: next_state_def post_deals_def Let_def split: option.splits)

lemma post_verify_timers:
  "timers (next_state B s (PostVerify d body newId now)) = timers s"
  by (simp add: next_state_def post_verify_def Let_def case_prod_beta split: option.splits)

lemma step_timers:
  assumes "fresh s e" and "map_of (deals s) d = Some deal"
  shows "count_timers d (next_state B s e) =
    (if fires_for d e then count_timers d s - 1 else count_timers d s)"
proof (cases e)
  case (PostDeal body newId now)
  with assms have "newId \<noteq> d" by auto
  with PostDeal show ?thesis
    by (simp add: count_timers_def post_deals_timers)
next
  case (PostVerify d' body newId now)
  then show ?thesis by (simp add: count_timers_def post_verify_timers)
next
  case (TimerFires d' now)
  show ?thesis
  proof (cases "list_ex (\<lambda>t. fst t = d') (timers s)")
    case True
    with TimerFires show ?thesis
      by (simp add: next_state_def timer_fires_def case_prod_beta)
        (simp add: count_timers_def count_remove_timer)
  next
    case False
    with TimerFires show ?thesis
      using no_timer_iff [of d' s]
      by (auto simp: next_state_def timer_fires_def)
  qed
qed (simp_all add: count_timers_def next_state_def post_register_def post_vote_def
    post_alerts_def delete_alert_def post_mode_def Let_def split: option.splits)

lemma run_timers_kept:
  "fresh_run B s es \<Longrightarrow> map_of (deals s) d = Some deal \<Longrightarrow> \<not> list_ex (fires_for d) es \<Longrightarrow>
   count_timers d (run B s es) = count_timers d s"
proof (induction es arbitrary: s deal)
  case Nil
  then show ?case by simp
next
  case (Cons e es)
  from Cons.prems have fr: "fresh s e" and nf: "\<not> fires_for d e" by auto
  from step_deal [OF fr Cons.prems(2), of B] obtain deal1 where
    1: "map_of (deals (next_state B s e)) d = Some deal1" by blast
  from step_timers [OF fr Cons.prems(2), of B] nf
  have 2: "count_timers d (next_state B s e) = count_timers d s" by simp
  from Cons.IH [OF _ 1] Cons.prems 2 show ?case by simp
qed

lemma run_timers_none:
  "fresh_run B s es \<Longrightarrow> map_of (deals s) d = Some deal \<Longrightarrow> count_timers d s = 0 \<Longrightarrow>
   count_timers d (run B s es) = 0"
proof (induction es arbitrary: s deal)
  case Nil
  then show ?case by simp
next
  case (Cons e es)
  from Cons.prems have fr: "fresh s e" by simp
  from step_deal [OF fr Cons.prems(2), of B] obtain deal1 where
    1: "map_of (deals (next_state B s e)) d = Some deal1" by blast
  from step_timers [OF fr Cons.prems(2), of B] Cons.prems(3)
  have 2: "count_timers d (next_state B s e) = 0" by simp
  from Cons.IH [OF _ 1 2] Cons.prems show ?case by simp
qed

lemma step_centralized_pending:
  assumes cen: "mode (config s) = Centralized" and fr: "fresh s e"
    and d: "map_of (deals s) d = Some deal" and p: "status deal = Pending"
    and nt: "count_timers d s = 0"
  shows "\<exists>deal'. map_of (deals (next_state B s e)) d = Some deal' \<and> status deal' = Pending"
proof (cases e)
  case (Register uname newId now)
  with d p show ?thesis by (simp add: deals_unchanged0)
next
  case (PostDeal body newId now)
  with fr d have "newId \<noteq> d" by auto
  with PostDeal d p show ?thesis
    by (auto simp: next_state_def post_deals_def Let_def update_conv' split: option.splits)
next
  case (PostVote d' uid)
  with d p show ?thesis
    by (auto simp: next_state_def post_vote_def Let_def update_conv' split: option.splits)
next
  case (PostVerify d' body newId now)
  with cen d p show ?thesis
    by (auto simp: next_state_def post_verify_def Let_def update_conv' split: option.splits)
next
  case (PostAlert body newId now)
  with d p show ?thesis by (simp add: deals_unchanged0)
next
  case (DeleteAlert a)
  with d p show ?thesis by (simp add: next_state_def delete_alert_def)
next
  case (PostMode m)
  with d p show ?thesis by (simp add: next_state_def post_mode_def Let_def)
next
  case (TimerFires d' now)
  show ?thesis
  proof (cases "d' = d")
    case True
    with nt have "\<not> list_ex (\<lambda>t. fst t = d') (timers s)" by (simp add: no_timer_iff)
    with TimerFires d p show ?thesis by (simp add: next_state_def timer_fires_def)
  next
    case False
    with TimerFires d p show ?thesis
      by (auto simp: next_state_def timer_fires_def case_prod_beta checkPromotion_deals
          split: option.splits)
  qed
qed

lemma run_centralized_pending:
  "centralized_run B s es \<Longrightarrow> fresh_run B s es \<Longrightarrow> map_of (deals s) d = Some deal \<Longrightarrow>
   status deal = Pending \<Longrightarrow> count_timers d s = 0 \<Longrightarrow>
   status_of (run B s es) d = Some Pending"
proof (induction es arbitrary: s deal)
  case Nil
  then show ?case by (simp add: status_of_def)
next
  case (Cons e es)
  from Cons.prems have cen: "mode (config s) = Centralized" and fr: "fresh s e" by auto
  from step_centralized_pending [OF cen fr Cons.prems(3,4,5), of B] obtain deal1 where
    1: "map_of (deals (next_state B s e)) d = Some deal1" and 2: "status deal1 = Pending"
    by blast
  from step_timers [OF fr Cons.prems(3), of B] Cons.prems(5)
  have 3: "count_timers d (next_state B s e) = 0" by simp
  from Cons.IH [OF _ _ 1 2 3] Cons.prems show ?case by simp
qed

lemma post_deals_stored:
  assumes "fst (post_deals B body newId now s) = Success_deal deal"
  shows "map_of (deals (next_state B s (PostDeal body newId now))) newId = Some deal"
  using assms
  by (auto simp: next_state_def post_deals_def Let_def update_conv'
      split: option.splits if_splits)

lemma post_verify_status:
  "status_of (next_state B s (PostVerify d' body newId now)) d = status_of s d \<or>
   status_of (next_state B s (PostVerify d' body newId now)) d = Some Verified \<or>
   status_of (next_state B s (PostVerify d' body newId now)) d = Some Rejected"
proof (cases "\<exists>deal0 user. map_of (deals s) d' = Some deal0 \<and>
      get_opt (users s) (req_userId body) = Some user \<and>
      \<not> list_ex (\<lambda>v. verifierId v = str_of (req_userId body)) (verifications deal0)")
  case False
  from post_verify_refused(1) [OF False] show ?thesis by simp
next
  case True
  then obtain deal0 user where d0: "map_of (deals s) d' = Some deal0"
    and u0: "get_opt (users s) (req_userId body) = Some user"
    and nd: "\<not> list_ex (\<lambda>v. verifierId v = str_of (req_userId body)) (verifications deal0)"
    by blast
  define v where "v = new_verification deal0 user body newId now"
  define deal1 where "deal1 = deal0\<lparr>verifications := verifications deal0 @ [v]\<rparr>"
  define s1 where "s1 = record_verification d' deal0 user v s"
  have "map_of (deals (next_state B s (PostVerify d' body newId now))) =
      (map_of (deals s))(d' \<mapsto> (if mode (config s) = Decentralized
         then fst (checkConsensus B now d' deal1 s1) else deal1))"
    by (rule post_verify_recorded_state(2) [OF d0 u0 nd v_def deal1_def s1_def])
  moreover have "status deal1 = status deal0" by (simp add: deal1_def)
  ultimately show ?thesis
    using d0 by (auto simp: status_of_def checkConsensus_deal)
qed

lemma deals_unchanged:
  "deals (next_state B s (Register uname newId now)) = deals s"
  "deals (next_state B s (PostAlert abody newId now)) = deals s"
  "deals (next_state B s (DeleteAlert a)) = deals s"
  "deals (next_state B s (PostMode m)) = deals s"
  by (simp_all add: next_state_def post_register_def post_alerts_def delete_alert_def
      post_mode_def Let_def split: option.splits)

lemma step_promoted_by_timer:
  assumes fr: "fresh s e" and d: "map_of (deals s) d = Some deal"
    and np: "status deal \<noteq> Promoted"
    and pr: "status_of (next_state B s e) d = Some Promoted"
  shows "fires_for d e \<and> 0 < count_timers d s"
proof (cases e)
  case (Register uname newId now)
  with d np pr show ?thesis by (simp add: deals_unchanged status_of_def)
next
  case (PostDeal body newId now)
  with fr d have "newId \<noteq> d" by auto
  with PostDeal d np pr show ?thesis
    by (auto simp: next_state_def post_deals_def Let_def update_conv' status_of_def
        split: option.splits if_splits)
next
  case (PostVote d' uid)
  with d np pr show ?thesis
    by (auto simp: next_state_def post_vote_def Let_def update_conv' status_of_def
        split: option.splits if_splits)
next
  case (PostVerify d' body newId now)
  with post_verify_status [of B s d' body newId now d] d np pr show ?thesis
    by (auto simp: status_of_def)
next
  case (PostAlert body newId now)
  with d np pr show ?thesis by (simp add: deals_unchanged status_of_def)
next
  case (DeleteAlert a)
  with d np pr show ?thesis by (simp add: deals_unchanged status_of_def)
next
  case (PostMode m)
  with d np pr show ?thesis by (simp add: deals_unchanged status_of_def)
next
  case (TimerFires d' now)
  show ?thesis
  proof (cases "list_ex (\<lambda>t. fst t = d') (timers s)")
    case False
    with TimerFires d np pr show ?thesis
      by (simp add: next_state_def timer_fires_def status_of_def)
  next
    case True
    with TimerFires d np pr have "d' = d"
      by (auto simp: next_state_def timer_fires_def case_prod_beta checkPromotion_deals
          status_of_def split: option.splits if_splits)
    with True TimerFires show ?thesis by (simp add: no_timer_iff)
  qed
qed

lemma run_not_promoted:
  "fresh_run B s es \<Longrightarrow> map_of (deals s) d = Some deal \<Longrightarrow> status deal \<noteq> Promoted \<Longrightarrow>
   count_timers d s = 0 \<or> \<not> list_ex (fires_for d) es \<Longrightarrow>
   status_of (run B s es) d \<noteq> Some Promoted"
proof (induction es arbitrary: s deal)
  case Nil
  then show ?case by (simp add: status_of_def)
next
  case (Cons e es)
  from Cons.prems have fr: "fresh s e" by simp
  from step_deal [OF fr Cons.prems(2), of B] obtain deal1 where
    1: "map_of (deals (next_state B s e)) d = Some deal1" by blast
  from Cons.prems(4) have nofire: "\<not> (fires_for d e \<and> 0 < count_timers d s)" by auto
  have 2: "status deal1 \<noteq> Promoted"
    using step_promoted_by_timer [OF fr Cons.prems(2,3), of B] 1 nofire
    by (auto simp: status_of_def)
  from step_timers [OF fr Cons.prems(2), of B] Cons.prems(4)
  have 3: "count_timers d (next_state B s e) = 0 \<or> \<not> list_ex (fires_for d) es"
    by auto
  from Cons.IH [OF _ 1 2 3] Cons.prems show ?case by simp
qed


section \<open>The mode and the two rules\<close>

lemma timer_fires_mode_irrelevant:
  "deals (next_state B (s\<lparr>config := (config s)\<lparr>mode := m\<rparr>\<rparr>) (TimerFires d now)) =
   deals (next_state B s (TimerFires d now))"
  by (simp add: next_state_def timer_fires_def checkPromotion_def checkAlertsForDeal_def
      Let_def case_prod_beta split: option.splits)

lemma post_verify_centralized:
  assumes "mode (config s) = Centralized"
  shows "status_of (next_state B s (PostVerify d body newId now)) d' = status_of s d'"
  using assms
  by (auto simp: next_state_def post_verify_def Let_def status_of_def update_conv'
      split: option.splits)

lemma post_verify_decentralized:
  assumes "mode (config s) = Decentralized"
    and "map_of (deals s) d = Some deal"
    and "fst (post_verify B d body newId now s) = Success_verification v dl"
  shows "status_of (next_state B s (PostVerify d body newId now)) d =
    Some (if 3 \<le> validVerifications dl \<and> status deal = Pending then Verified
          else if 3 \<le> invalidVerifications dl \<and> status deal = Pending then Rejected
          else status deal)"
proof -
  define deal1 where "deal1 = deal\<lparr>verifications := verifications deal @ [v]\<rparr>"
  from post_verify_Success [OF assms(3)] assms(2) obtain user where
    u0: "get_opt (users s) (req_userId body) = Some user"
    and nd: "\<not> list_ex (\<lambda>v. verifierId v = str_of (req_userId body)) (verifications deal)"
    and v: "v = new_verification deal user body newId now"
    by auto
  define s1 where "s1 = record_verification d deal user v s"
  note pv = post_verify_recorded [OF assms(2) u0 nd v deal1_def s1_def, of B]
  from pv assms(1,3)
  have dl: "dl = fst (checkConsensus B now d deal1 s1)"
    by (simp add: case_prod_beta split: if_splits)
  have "map_of (deals (next_state B s (PostVerify d body newId now))) =
      (map_of (deals s))(d \<mapsto> (if mode (config s) = Decentralized
         then fst (checkConsensus B now d deal1 s1) else deal1))"
    by (rule post_verify_recorded_state(2) [OF assms(2) u0 nd v deal1_def s1_def])
  with assms(1) have 1: "map_of (deals (next_state B s (PostVerify d body newId now))) d = Some dl"
    by (simp add: dl)
  have 2: "validVerifications dl = validVerifications deal1"
    "invalidVerifications dl = invalidVerifications deal1"
    by (simp_all add: dl checkConsensus_deal validVerifications_def invalidVerifications_def)
  have 3: "status deal1 = status deal" by (simp add: deal1_def)
  show ?thesis
    using 1 2 3 by (simp add: status_of_def dl checkConsensus_deal CONSENSUS_THRESHOLD_def)
qed

lemma post_mode_frame:
  "deals (next_state B s (PostMode m)) = deals s \<and>
   alerts (next_state B s (PostMode m)) = alerts s \<and>
   timers (next_state B s (PostMode m)) = timers s \<and>
   alert_msgs (sent B s (PostMode m)) = [] \<and>
   mode (config (next_state B s (PostMode m))) =
     (if m = JStr ''centralized'' then Centralized
      else if m = JStr ''decentralized'' then Decentralized else mode (config s))"
  by (simp add: next_state_def sent_def post_mode_def Let_def)

section \<open>The criteria of a stored alert\<close>

text \<open>
  An alert is stored with the criteria that the request gave, the keywords lower-cased,
  and keeps them as long as it is stored: an evaluation only adds to its triggered set.
\<close>

lemma post_alerts_Success:
  assumes "fst (post_alerts B body k now s) = Success_alert a"
  shows "\<exists>kw. req_productKeywords body = JStr kw \<and>
           a = new_alert B body (toLowerCase B kw) k now \<and>
           alerts (next_state B s (PostAlert body k now)) = AList.update k a (alerts s)"
proof (cases "req_productKeywords body")
  case (JStr kw)
  with assms show ?thesis
    by (auto simp: post_alerts_def next_state_def Let_def split: option.splits if_splits)
qed (use assms in \<open>auto simp: post_alerts_def Let_def split: option.splits if_splits\<close>)

lemma same_criteria_refl [simp]: "same_criteria a a"
  by (simp add: same_criteria_def)

lemma same_criteria_trans:
  "same_criteria a b \<Longrightarrow> same_criteria b c \<Longrightarrow> same_criteria a c"
  by (simp add: same_criteria_def)

lemma checkAlert_criteria: "same_criteria a (fst (checkAlert B now deal a))"
  by (simp add: checkAlert_def same_criteria_def split: option.splits)

lemma checkAlerts_each_criteria:
  "map_of al k = Some a \<Longrightarrow>
   \<exists>a'. map_of (fst (checkAlerts_each B now deal al)) k = Some a' \<and> same_criteria a a'"
proof (induction al)
  case Nil
  then show ?case by simp
next
  case (Cons p al)
  obtain k' a0 where p: "p = (k', a0)" by (cases p)
  show ?case
  proof (cases "k' = k")
    case True
    with Cons.prems have "a0 = a" by (simp add: p)
    with True checkAlert_criteria [of a B now deal] show ?thesis
      by (simp add: p case_prod_beta)
  next
    case False
    with Cons.prems have m: "map_of al k = Some a" by (simp add: p)
    from Cons.IH [OF m] False m show ?thesis by (auto simp: p case_prod_beta)
  qed
qed

lemma step_criteria:
  assumes a: "map_of (alerts s) k = Some a" and fr: "fresh s e" and nd: "e \<noteq> DeleteAlert k"
  shows "\<exists>a'. map_of (alerts (next_state B s e)) k = Some a' \<and> same_criteria a a'"
proof (cases e)
  case (Register uname newId now)
  with plain_not_evaluated(1) [of s B uname newId now] a show ?thesis
    by (simp add: not_evaluated_def)
next
  case (PostDeal body newId now)
  with plain_not_evaluated(2) [of s B body newId now] a show ?thesis
    by (simp add: not_evaluated_def)
next
  case (PostVote d' uid)
  with vote_not_evaluated [of s B d' uid] a show ?thesis
    by (simp add: not_evaluated_def)
next
  case (PostVerify d' body newId now)
  with verify_evaluated [of s B d' body newId now] a
    checkAlerts_each_criteria [OF a, of B now]
  show ?thesis by (auto simp: not_evaluated_def evaluated_for_def split: if_splits)
next
  case (PostAlert body newId now)
  with fr a have ne: "newId \<noteq> k" by auto
  with PostAlert a show ?thesis
    by (auto simp: post_alerts_frame update_conv' split: response.splits)
next
  case (DeleteAlert k')
  with nd have "k' \<noteq> k" by simp
  with DeleteAlert a show ?thesis by (simp add: delete_alert_frame)
next
  case (PostMode m)
  with plain_not_evaluated(3) [of s B m] a show ?thesis
    by (simp add: not_evaluated_def)
next
  case (TimerFires d' now)
  with timer_evaluated [of s B d' now] a checkAlerts_each_criteria [OF a, of B now]
  show ?thesis by (auto simp: not_evaluated_def evaluated_for_def split: if_splits)
qed

lemma run_criteria:
  "map_of (alerts s) k = Some a \<Longrightarrow> fresh_run B s es \<Longrightarrow> DeleteAlert k \<notin> set es \<Longrightarrow>
   \<exists>a'. map_of (alerts (run B s es)) k = Some a' \<and> same_criteria a a'"
proof (induction es arbitrary: s a)
  case Nil
  then show ?case by simp
next
  case (Cons e es)
  from Cons.prems have "fresh s e" "e \<noteq> DeleteAlert k" by auto
  from step_criteria [OF Cons.prems(1) this, of B] obtain a1 where
    a1: "map_of (alerts (next_state B s e)) k = Some a1" and c1: "same_criteria a a1"
    by blast
  from Cons.IH [OF a1] Cons.prems obtain a' where
    "map_of (alerts (run B (next_state B s e) es)) k = Some a'" "same_criteria a1 a'"
    by auto
  with c1 show ?case by (auto intro: same_criteria_trans)
qed

text \<open>The alert of a request that succeeded, at any later moment at which it is stored.\<close>

lemma created_alert_later:
  assumes "alerts_wf (alerts s0)"
    and "fst (post_alerts B body k t0 s0) = Success_alert a0"
    and "fresh_run B (next_state B s0 (PostAlert body k t0)) es"
    and "DeleteAlert k \<notin> set es"
  shows "\<exists>kw a. req_productKeywords body = JStr kw \<and>
     alerts_wf (alerts (run B (next_state B s0 (PostAlert body k t0)) es)) \<and>
     map_of (alerts (run B (next_state B s0 (PostAlert body k t0)) es)) k = Some a \<and>
     alert_id a = k \<and>
     productKeywords a = toLowerCase B kw \<and>
     maxPrice a = parseFloat B (req_maxPrice body) \<and>
     minVerifications a =
       (if truthy (req_minVerifications body) then req_minVerifications body
        else JNum (Fin 3))"
proof -
  define s1 where "s1 = next_state B s0 (PostAlert body k t0)"
  from post_alerts_Success [OF assms(2)] obtain kw where
    kw: "req_productKeywords body = JStr kw"
    and a0: "a0 = new_alert B body (toLowerCase B kw) k t0"
    and al: "alerts s1 = AList.update k a0 (alerts s0)"
    by (auto simp: s1_def)
  have id: "alert_id a0 = k" by (simp add: a0 new_alert_def)
  have wf1: "alerts_wf (alerts s1)"
    unfolding al by (rule alerts_wf_update [OF assms(1) id])
  have m1: "map_of (alerts s1) k = Some a0" by (simp add: al update_conv')
  from run_alert [OF wf1 m1 assms(3) [folded s1_def] assms(4), of k]
  have wf: "alerts_wf (alerts (run B s1 es))" by blast
  from run_criteria [OF m1 assms(3) [folded s1_def] assms(4)] obtain a where
    a: "map_of (alerts (run B s1 es)) k = Some a" and c: "same_criteria a0 a" by blast
  from wf a have "alert_id a = k"
    by (auto simp: alerts_wf_def list_all_iff dest: map_of_SomeD)
  with kw wf a c show ?thesis
    by (auto simp: s1_def [symmetric] same_criteria_def a0 new_alert_def)
qed

section \<open>Properties of the server\<close>

text \<open>
  The properties over sequences of events take the identifiers as \<^verbatim>\<open>uuidv4()\<close> gives
  them, each one new where it is used (\<open>fresh_run\<close>), and hold from any state of the
  store, not only from \<open>init_state\<close>.
\<close>

text \<open>
  C1. Whatever events the server handles (registrations, submissions, votes,
  verifications with their consensus checks, promotion checks, alert requests, mode
  switches), a stored deal stays stored and its status either is what it was or has
  moved from pending to promoted, verified or rejected: no deal leaves a terminal
  status, and none returns to pending.
\<close>

theorem status_one_way:
  assumes "fresh_run B s es" and "status_of s d = Some st"
  shows "\<exists>st'. status_of (run B s es) d = Some st' \<and> allowed_transition st st'"
  using assms run_deal [of B s es d] by (auto simp: status_of_def deal_evolves_def)

theorem status_one_way_witness:
  "fresh_run ascii_builtins contested_state
     [PostVerify ''d1'' alice_says_valid ''v1'' 20, PostVote ''d1'' (JStr ''u2''),
      PostMode (JStr ''centralized''), TimerFires ''d1'' 30] \<and>
   status_of contested_state ''d1'' = Some Pending \<and>
   status_of (run ascii_builtins contested_state
     [PostVerify ''d1'' alice_says_valid ''v1'' 20, PostVote ''d1'' (JStr ''u2''),
      PostMode (JStr ''centralized''), TimerFires ''d1'' 30]) ''d1'' = Some Verified \<and>
   allowed_transition Pending Verified"
  using status_one_way [of ascii_builtins contested_state
     "[PostVerify ''d1'' alice_says_valid ''v1'' 20, PostVote ''d1'' (JStr ''u2''),
      PostMode (JStr ''centralized''), TimerFires ''d1'' 30]" "''d1''" Pending]
  by (simp add: example_defs ascii_defs handler_defs)

text \<open>
  C2. In decentralized mode a verification request that passes the checks of the
  handler (the deal exists, the user exists and has not verified the deal before)
  records the verification and evaluates the consensus on the deal with the new
  verification counted. The deal becomes verified, with the verification time stamped,
  if at least three of its verifications say \<^verbatim>\<open>valid\<close> and it was pending;
  otherwise it becomes rejected if at least three say \<^verbatim>\<open>invalid\<close> and it was
  pending; otherwise its status stays as it was: so it becomes verified, or rejected,
  only in these cases. The valid count is tested first. The counts are written out on
  the list of verifications. The request is answered with the verification and the
  deal, or left by an exception of the alert evaluation, after the deal became verified.
\<close>

theorem consensus_after_verification:
  assumes "mode (config s) = Decentralized"
    and "map_of (deals s) d = Some deal"
    and "get_opt (users s) (req_userId body) = Some user"
    and "\<not> list_ex (\<lambda>v. verifierId v = str_of (req_userId body)) (verifications deal)"
  shows "\<exists>deal' v.
         map_of (deals (next_state B s (PostVerify d body newId now))) d = Some deal' \<and>
         verifications deal' = verifications deal @ [v] \<and>
         verdict v = req_verdict body \<and> verifierId v = str_of (req_userId body) \<and>
         (if 3 \<le> length (filter (\<lambda>x. verdict x = JStr ''valid'') (verifications deal @ [v])) \<and>
             status deal = Pending
          then status deal' = Verified \<and> verifiedAt deal' = Some now
          else if 3 \<le> length (filter (\<lambda>x. verdict x = JStr ''invalid'')
                           (verifications deal @ [v])) \<and>
                  status deal = Pending
          then status deal' = Rejected \<and> verifiedAt deal' = verifiedAt deal
          else status deal' = status deal \<and> verifiedAt deal' = verifiedAt deal) \<and>
         (fst (post_verify B d body newId now s) = Success_verification v deal' \<or>
          fst (post_verify B d body newId now s) = TypeError_thrown \<and>
            status deal = Pending \<and> status deal' = Verified)"
proof -
  define v where "v = new_verification deal user body newId now"
  define deal1 where "deal1 = deal\<lparr>verifications := verifications deal @ [v]\<rparr>"
  define s1 where "s1 = record_verification d deal user v s"
  define deal' where "deal' = fst (checkConsensus B now d deal1 s1)"
  have "map_of (deals (next_state B s (PostVerify d body newId now))) =
      (map_of (deals s))(d \<mapsto> (if mode (config s) = Decentralized
         then fst (checkConsensus B now d deal1 s1) else deal1))"
    by (rule post_verify_recorded_state(2) [OF assms(2,3,4) v_def deal1_def s1_def])
  with assms(1)
  have 1: "map_of (deals (next_state B s (PostVerify d body newId now))) d = Some deal'"
    by (simp add: deal'_def)
  have 2: "verifications deal1 = verifications deal @ [v]" "status deal1 = status deal"
    "verifiedAt deal1 = verifiedAt deal"
    by (simp_all add: deal1_def)
  have 3: "verdict v = req_verdict body" "verifierId v = str_of (req_userId body)"
    by (simp_all add: v_def new_verification_def)
  have 4: "verifications deal' = verifications deal @ [v]"
    by (simp add: deal'_def checkConsensus_deal 2)
  define nv where
    "nv = length (filter (\<lambda>x. verdict x = JStr ''valid'') (verifications deal @ [v]))"
  define ni where
    "ni = length (filter (\<lambda>x. verdict x = JStr ''invalid'') (verifications deal @ [v]))"
  have vv: "validVerifications deal1 = nv" "invalidVerifications deal1 = ni"
    by (simp_all only: validVerifications_def invalidVerifications_def 2(1) nv_def ni_def)
  have "if 3 \<le> nv \<and> status deal = Pending
        then status deal' = Verified \<and> verifiedAt deal' = Some now
        else if 3 \<le> ni \<and> status deal = Pending
        then status deal' = Rejected \<and> verifiedAt deal' = verifiedAt deal
        else status deal' = status deal \<and> verifiedAt deal' = verifiedAt deal"
    by (auto simp: deal'_def checkConsensus_deal CONSENSUS_THRESHOLD_def vv 2(2,3))
  then have 5: "if 3 \<le> length (filter (\<lambda>x. verdict x = JStr ''valid'') (verifications deal @ [v])) \<and>
             status deal = Pending
          then status deal' = Verified \<and> verifiedAt deal' = Some now
          else if 3 \<le> length (filter (\<lambda>x. verdict x = JStr ''invalid'')
                           (verifications deal @ [v])) \<and>
                  status deal = Pending
          then status deal' = Rejected \<and> verifiedAt deal' = verifiedAt deal
          else status deal' = status deal \<and> verifiedAt deal' = verifiedAt deal"
    unfolding nv_def ni_def .
  have thrown: "status deal = Pending \<and> status deal' = Verified"
    if "snd (snd (snd (checkConsensus B now d deal1 s1)))"
    using that unfolding deal'_def
    by (auto simp: checkConsensus_def Let_def case_prod_beta 2 split: if_splits)
  have 6: "fst (post_verify B d body newId now s) = Success_verification v deal' \<or>
          fst (post_verify B d body newId now s) = TypeError_thrown \<and>
            status deal = Pending \<and> status deal' = Verified"
    using post_verify_recorded [OF assms(2,3,4) v_def deal1_def s1_def, of B] assms(1) thrown
    by (auto simp: case_prod_beta deal'_def)
  from 1 3 4 5 6 show ?thesis by blast
qed

theorem consensus_after_verification_witness:
  "mode (config contested_state) = Decentralized \<and>
   map_of (deals contested_state) ''d1'' = Some contested_deal \<and>
   get_opt (users contested_state) (req_userId alice_says_valid) =
     Some (mk_user ''u1'' ''alice'') \<and>
   \<not> list_ex (\<lambda>v. verifierId v = str_of (req_userId alice_says_valid))
       (verifications contested_deal) \<and>
   length (filter (\<lambda>x. verdict x = JStr ''valid'') (verifications contested_verified)) = 3 \<and>
   length (filter (\<lambda>x. verdict x = JStr ''invalid'') (verifications contested_verified)) = 3 \<and>
   map_of (deals (next_state ascii_builtins contested_state
     (PostVerify ''d1'' alice_says_valid ''v1'' 20))) ''d1'' = Some contested_verified \<and>
   status contested_verified = Verified \<and> verifiedAt contested_verified = Some 20 \<and>
   status_of (next_state ascii_builtins contested_state
     (PostVerify ''d1'' alice_says_invalid ''v1'' 20)) ''d1'' = Some Rejected"
  using consensus_after_verification [of contested_state "''d1''" contested_deal
      alice_says_valid "mk_user ''u1'' ''alice''" ascii_builtins "''v1''" 20]
    consensus_after_verification [of contested_state "''d1''" contested_deal
      alice_says_invalid "mk_user ''u1'' ''alice''" ascii_builtins "''v1''" 20]
  by (simp add: example_defs ascii_defs handler_defs)

text \<open>
  C3. A deal submitted in centralized mode gets exactly one promotion check in the
  queue, scheduled by the submission, and no later event adds another. When the check
  fires, a deal that is pending with at least the threshold of votes becomes promoted,
  with the promotion time stamped; otherwise the deal is left as it is, the queue holds
  no check for it any more and the deal is never promoted, whatever votes arrive; and
  as long as the server stays in centralized mode, a pending deal stays pending.
\<close>

theorem single_promotion_check:
  assumes "mode (config s) = Centralized"
    and "map_of (deals s) newId = None" and "count_timers newId s = 0"
    and "fst (post_deals B body newId t0 s) = Success_deal deal0"
    and "s1 = next_state B s (PostDeal body newId t0)"
    and "fresh_run B s1 es1" and "\<not> list_ex (fires_for newId) es1"
    and "s2 = run B s1 es1"
    and "s3 = next_state B s2 (TimerFires newId now)"
    and "fresh_run B s3 es2"
    and "s4 = run B s3 es2"
  shows "timers s1 = timers s @ [(newId, promotionDelaySimulated (config s))] \<and>
         count_timers newId s1 = 1 \<and> count_timers newId s2 = 1 \<and>
         count_timers newId s3 = 0 \<and> count_timers newId s4 = 0 \<and>
         (\<exists>d2. map_of (deals s2) newId = Some d2 \<and>
            (if status d2 = Pending \<and> promotionThreshold (config s2) \<le> votes d2
             then map_of (deals s3) newId = Some (d2\<lparr>status := Promoted, promotedAt := Some now\<rparr>)
             else map_of (deals s3) newId = Some d2 \<and>
                  status_of s4 newId \<noteq> Some Promoted \<and>
                  (status d2 = Pending \<and> centralized_run B s3 es2 \<longrightarrow>
                     status_of s4 newId = Some Pending)))"
proof -
  have t1: "timers s1 = timers s @ [(newId, promotionDelaySimulated (config s))]"
    using assms(1,4) by (simp add: assms(5) post_deals_timers)
  then have c1: "count_timers newId s1 = 1"
    using assms(3) by (simp add: count_timers_def)
  have d1: "map_of (deals s1) newId = Some deal0"
    unfolding assms(5) by (rule post_deals_stored [OF assms(4)])
  have p0: "status deal0 = Pending"
    using assms(4) by (auto simp: post_deals_def new_deal_def Let_def split: option.splits if_splits)
  from run_deal [OF assms(6) d1] obtain d2 where
    d2: "map_of (deals s2) newId = Some d2" by (auto simp: assms(8))
  have np2: "status d2 \<noteq> Promoted"
    using run_not_promoted [OF assms(6) d1] p0 assms(7) d2
    by (simp add: assms(8) status_of_def)
  have c2: "count_timers newId s2 = 1"
    using run_timers_kept [OF assms(6) d1 assms(7)] c1 by (simp add: assms(8))
  then have ex: "list_ex (\<lambda>t. fst t = newId) (timers s2)" by (simp add: no_timer_iff)
  have c3: "count_timers newId s3 = 0"
    using step_timers [OF _ d2, of "TimerFires newId now" B] c2 by (simp add: assms(9))
  have s3: "map_of (deals s3) =
      (if status d2 = Pending \<and> promotionThreshold (config s2) \<le> votes d2
       then (map_of (deals s2))(newId \<mapsto> d2\<lparr>status := Promoted, promotedAt := Some now\<rparr>)
       else map_of (deals s2))"
    using ex d2
    by (simp add: assms(9) next_state_def timer_fires_def case_prod_beta checkPromotion_deals)
  then obtain d3 where d3: "map_of (deals s3) newId = Some d3"
    using d2 by (auto split: if_splits)
  have c4: "count_timers newId s4 = 0"
    unfolding assms(11) by (rule run_timers_none [OF assms(10) d3 c3])
  have never: "status_of s4 newId \<noteq> Some Promoted"
    if "\<not> (status d2 = Pending \<and> promotionThreshold (config s2) \<le> votes d2)"
  proof -
    from that s3 d2 have "map_of (deals s3) newId = Some d2" by (auto split: if_splits)
    from run_not_promoted [OF assms(10) this np2] c3
    show ?thesis by (simp add: assms(11))
  qed
  have stay: "status_of s4 newId = Some Pending"
    if "\<not> (status d2 = Pending \<and> promotionThreshold (config s2) \<le> votes d2)"
      and "status d2 = Pending" and "centralized_run B s3 es2"
  proof -
    from that s3 d2 have "map_of (deals s3) newId = Some d2" by (auto split: if_splits)
    from run_centralized_pending [OF that(3) assms(10) this that(2) c3]
    show ?thesis by (simp add: assms(11))
  qed
  show ?thesis
  proof (cases "status d2 = Pending \<and> promotionThreshold (config s2) \<le> votes d2")
    case True
    with t1 c1 c2 c3 c4 d2 s3 show ?thesis by simp
  next
    case False
    with t1 c1 c2 c3 c4 d2 s3 never [OF False] stay [OF False] show ?thesis by auto
  qed
qed

theorem single_promotion_check_witness:
  "mode (config example_state) = Centralized \<and>
   map_of (deals example_state) ''d1'' = None \<and> count_timers ''d1'' example_state = 0 \<and>
   fst (post_deals ascii_builtins rtx_body ''d1'' 10 example_state) = Success_deal rtx_deal \<and>
   fresh_run ascii_builtins
     (next_state ascii_builtins example_state (PostDeal rtx_body ''d1'' 10)) two_votes \<and>
   \<not> list_ex (fires_for ''d1'') two_votes \<and>
   fresh_run ascii_builtins
     (run ascii_builtins example_state
        (PostDeal rtx_body ''d1'' 10 # two_votes @ [TimerFires ''d1'' 10010])) late_votes \<and>
   centralized_run ascii_builtins
     (run ascii_builtins example_state
        (PostDeal rtx_body ''d1'' 10 # two_votes @ [TimerFires ''d1'' 10010])) late_votes \<and>
   timers (next_state ascii_builtins example_state (PostDeal rtx_body ''d1'' 10)) =
     [(''d1'', 10000)] \<and>
   map_of (deals (run ascii_builtins example_state
        (PostDeal rtx_body ''d1'' 10 # two_votes @ [TimerFires ''d1'' 10010] @ late_votes)))
     ''d1'' = Some (rtx_deal\<lparr>votes := 5\<rparr>) \<and>
   timers (run ascii_builtins example_state
        (PostDeal rtx_body ''d1'' 10 # two_votes @ [TimerFires ''d1'' 10010] @ late_votes)) = []"
  using single_promotion_check [where s = example_state and newId = "''d1''"
      and B = ascii_builtins and body = rtx_body and ?t0.0 = 10 and ?deal0.0 = rtx_deal
      and ?s1.0 = "next_state ascii_builtins example_state (PostDeal rtx_body ''d1'' 10)"
      and ?es1.0 = two_votes
      and ?s2.0 = "run ascii_builtins
        (next_state ascii_builtins example_state (PostDeal rtx_body ''d1'' 10)) two_votes"
      and ?s3.0 = "next_state ascii_builtins (run ascii_builtins
        (next_state ascii_builtins example_state (PostDeal rtx_body ''d1'' 10)) two_votes)
        (TimerFires ''d1'' 10010)"
      and now = 10010 and ?es2.0 = late_votes
      and ?s4.0 = "run ascii_builtins (next_state ascii_builtins (run ascii_builtins
        (next_state ascii_builtins example_state (PostDeal rtx_body ''d1'' 10)) two_votes)
        (TimerFires ''d1'' 10010)) late_votes"]
  by (simp add: example_defs ascii_defs handler_defs count_timers_def)

text \<open>
  C4, as stated, fails for the promotion rule: a deal submitted in centralized mode is
  promoted by its check after the server has been switched to decentralized mode.
\<close>

theorem promoted_in_decentralized_mode_counterexample:
  "mode (config (run ascii_builtins example_state switched_before_check)) = Decentralized \<and>
   status_of (run ascii_builtins example_state switched_before_check) ''d1'' = Some Pending \<and>
   status_of (next_state ascii_builtins (run ascii_builtins example_state switched_before_check)
     (TimerFires ''d1'' 10010)) ''d1'' = Some Promoted"
  by (simp add: example_defs ascii_defs handler_defs)

text \<open>
  C4, amended. A verification request applies the consensus rule exactly when the mode
  is decentralized at that moment: in centralized mode it changes no status. The
  promotion rule belongs to the submission: a check is scheduled when a deal is
  submitted in centralized mode and only then, and the check, when it fires, does to
  the deals what it would do in either mode. A mode switch sets the mode and changes
  no deal, no alert and no scheduled check, and sends no notification.
\<close>

theorem mode_selects_rule:
  "(mode (config s) = Centralized \<longrightarrow>
      status_of (next_state B s (PostVerify d body newId now)) d' = status_of s d') \<and>
   (mode (config s) = Decentralized \<and> map_of (deals s) d = Some deal \<and>
    fst (post_verify B d body newId now s) = Success_verification v dl \<longrightarrow>
      status_of (next_state B s (PostVerify d body newId now)) d =
        Some (if 3 \<le> validVerifications dl \<and> status deal = Pending then Verified
              else if 3 \<le> invalidVerifications dl \<and> status deal = Pending then Rejected
              else status deal)) \<and>
   timers (next_state B s (PostDeal dbody newId now)) =
     (if mode (config s) = Centralized \<and>
         (\<exists>deal. fst (post_deals B dbody newId now s) = Success_deal deal)
      then timers s @ [(newId, promotionDelaySimulated (config s))]
      else timers s) \<and>
   deals (next_state B (s\<lparr>config := (config s)\<lparr>mode := m'\<rparr>\<rparr>) (TimerFires d now)) =
     deals (next_state B s (TimerFires d now)) \<and>
   deals (next_state B s (PostMode m)) = deals s \<and>
   alerts (next_state B s (PostMode m)) = alerts s \<and>
   timers (next_state B s (PostMode m)) = timers s \<and>
   alert_msgs (sent B s (PostMode m)) = [] \<and>
   mode (config (next_state B s (PostMode m))) =
     (if m = JStr ''centralized'' then Centralized
      else if m = JStr ''decentralized'' then Decentralized else mode (config s))"
  using post_verify_centralized [of s B d body newId now d']
    post_verify_decentralized [of s d deal B body newId now v dl]
    post_deals_timers [of B s dbody newId now]
    timer_fires_mode_irrelevant [where B = B and s = s and m = m' and d = d and now = now]
    post_mode_frame [of B s m]
  by blast

theorem mode_selects_rule_witness:
  "mode (config popular_state) = Centralized \<and>
   status_of (next_state ascii_builtins popular_state
     (PostVerify ''d1'' alice_says_valid ''v1'' 20)) ''d1'' = Some Pending \<and>
   mode (config contested_state) = Decentralized \<and>
   map_of (deals contested_state) ''d1'' = Some contested_deal \<and>
   fst (post_verify ascii_builtins ''d1'' alice_says_valid ''v1'' 20 contested_state) =
     Success_verification (verdict_by ''v1'' ''u1'' ''alice'' ''valid'') contested_verified \<and>
   status_of (next_state ascii_builtins contested_state
     (PostVerify ''d1'' alice_says_valid ''v1'' 20)) ''d1'' = Some Verified \<and>
   timers (next_state ascii_builtins example_state (PostDeal rtx_body ''d1'' 10)) =
     [(''d1'', 10000)] \<and>
   mode (config (next_state ascii_builtins example_state (PostMode (JStr ''decentralized'')))) =
     Decentralized"
  using mode_selects_rule [where s = popular_state and B = ascii_builtins and d = "''d1''"
      and body = alice_says_valid and newId = "''v1''" and now = 20 and d' = "''d1''"
      and deal = "rtx_deal\<lparr>votes := 5\<rparr>"
      and v = "verdict_by ''v1'' ''u1'' ''alice'' ''valid''" and dl = contested_verified
      and dbody = rtx_body and m' = Centralized and m = "JStr ''decentralized''"]
    mode_selects_rule [where s = contested_state and B = ascii_builtins and d = "''d1''"
      and body = alice_says_valid and newId = "''v1''" and now = 20 and d' = "''d1''"
      and deal = contested_deal
      and v = "verdict_by ''v1'' ''u1'' ''alice'' ''valid''" and dl = contested_verified
      and dbody = rtx_body and m' = Centralized and m = "JStr ''decentralized''"]
    mode_selects_rule [where s = example_state and B = ascii_builtins and d = "''d1''"
      and body = alice_says_valid and newId = "''d1''" and now = 10 and d' = "''d1''"
      and deal = contested_deal
      and v = "verdict_by ''v1'' ''u1'' ''alice'' ''valid''" and dl = contested_verified
      and dbody = rtx_body and m' = Centralized and m = "JStr ''decentralized''"]
  by (simp add: example_defs ascii_defs handler_defs)




text \<open>
  C6. Take an alert of the store and any sequence of events in which it is not deleted.
  For every deal, at most one notification for this alert and this deal is broadcast
  in the whole sequence, and none at all when the deal is already in the triggered set
  of the alert at the start: evaluating such an alert for that deal returns the alert
  as it is and sends nothing.
\<close>

theorem alert_fires_at_most_once:
  assumes "alerts_wf (alerts s)" and "map_of (alerts s) k = Some a"
    and "fresh_run B s es" and "DeleteAlert k \<notin> set es"
  shows "count_triggers k d (run_sent B s es) \<le> 1 \<and>
         (d \<in> set (triggered a) \<longrightarrow>
            count_triggers k d (run_sent B s es) = 0 \<and>
            (\<forall>now deal. deal_id deal = d \<longrightarrow>
               fst (checkAlert B now deal a) = a \<and> fst (snd (checkAlert B now deal a)) = []))"
proof -
  from run_alert [OF assms, of d] obtain a' where
    "count_triggers k d (run_sent B s es) + already d a = already d a'" by blast
  then show ?thesis by (auto simp: already_def checkAlert_def split: if_splits option.splits)
qed

theorem alert_fires_at_most_once_witness:
  "alerts_wf (alerts contested_state) \<and>
   map_of (alerts contested_state) ''a1'' = Some electronics_alert \<and>
   fresh_run ascii_builtins contested_state late_verifications \<and>
   DeleteAlert ''a1'' \<notin> set late_verifications \<and>
   count_triggers ''a1'' ''d1'' (run_sent ascii_builtins contested_state late_verifications) = 1 \<and>
   map_of (alerts (next_state ascii_builtins contested_state
     (PostVerify ''d1'' alice_says_valid ''v1'' 20))) ''a1'' =
     Some (electronics_alert\<lparr>triggered := [''d1'']\<rparr>) \<and>
   ''d1'' \<in> set (triggered (electronics_alert\<lparr>triggered := [''d1'']\<rparr>)) \<and>
   count_triggers ''a1'' ''d1''
     (run_sent ascii_builtins
       (next_state ascii_builtins contested_state (PostVerify ''d1'' alice_says_valid ''v1'' 20))
       (tl late_verifications)) = 0"
  using alert_fires_at_most_once [of contested_state "''a1''" electronics_alert ascii_builtins
      late_verifications "''d1''"]
    alert_fires_at_most_once [of
      "next_state ascii_builtins contested_state (PostVerify ''d1'' alice_says_valid ''v1'' 20)"
      "''a1''" "electronics_alert\<lparr>triggered := [''d1'']\<rparr>" ascii_builtins
      "tl late_verifications" "''d1''"]
  by (simp add: example_defs ascii_defs handler_defs alerts_wf_def)

text \<open>
  C7. A vote never evaluates the alerts. A verification request evaluates them, for the
  deal as it is after the request, exactly when it takes the deal from pending to
  verified; not when it takes it to rejected, leaves its status alone or fails. A
  promotion check evaluates them exactly when it takes the deal from pending to
  promoted. A registration, a submission and a mode switch never evaluate them.
  Creating an alert and deleting one send no notification and evaluate nothing: the
  one stores the new alert, which has triggered for no deal, the other removes an
  alert. An evaluation is one call of \<^verbatim>\<open>checkAlertsForDeal\<close>, to its end or to the
  alert at which it throws.
\<close>

theorem alerts_evaluated_on_success_only:
  "not_evaluated s (next_state B s (PostVote d uid)) (sent B s (PostVote d uid)) \<and>
   (if became s (next_state B s (PostVerify d body newId now)) d Verified
    then \<exists>deal'. map_of (deals (next_state B s (PostVerify d body newId now))) d = Some deal' \<and>
           evaluated_for B now deal' s (next_state B s (PostVerify d body newId now))
             (sent B s (PostVerify d body newId now))
    else not_evaluated s (next_state B s (PostVerify d body newId now))
           (sent B s (PostVerify d body newId now))) \<and>
   (if became s (next_state B s (TimerFires d now)) d Promoted
    then \<exists>deal'. map_of (deals (next_state B s (TimerFires d now))) d = Some deal' \<and>
           evaluated_for B now deal' s (next_state B s (TimerFires d now))
             (sent B s (TimerFires d now))
    else not_evaluated s (next_state B s (TimerFires d now)) (sent B s (TimerFires d now))) \<and>
   not_evaluated s (next_state B s (Register uname newId now))
     (sent B s (Register uname newId now)) \<and>
   not_evaluated s (next_state B s (PostDeal dbody newId now))
     (sent B s (PostDeal dbody newId now)) \<and>
   not_evaluated s (next_state B s (PostMode m)) (sent B s (PostMode m)) \<and>
   alert_msgs (sent B s (PostAlert abody newId now)) = [] \<and>
   alerts (next_state B s (PostAlert abody newId now)) =
     (case fst (post_alerts B abody newId now s) of
        Success_alert a \<Rightarrow> AList.update newId (a\<lparr>triggered := []\<rparr>) (alerts s)
      | _ \<Rightarrow> alerts s) \<and>
   alert_msgs (sent B s (DeleteAlert k)) = [] \<and>
   alerts (next_state B s (DeleteAlert k)) = AList.delete k (alerts s)"
  by (intro conjI vote_not_evaluated verify_evaluated timer_evaluated plain_not_evaluated
      post_alerts_frame delete_alert_frame)

theorem alerts_evaluated_on_success_only_witness:
  "not_evaluated contested_state
     (next_state ascii_builtins contested_state (PostVote ''d1'' (JStr ''u2'')))
     (sent ascii_builtins contested_state (PostVote ''d1'' (JStr ''u2''))) \<and>
   became contested_state
     (next_state ascii_builtins contested_state (PostVerify ''d1'' alice_says_valid ''v1'' 20))
     ''d1'' Verified \<and>
   evaluated_for ascii_builtins 20 contested_verified contested_state
     (next_state ascii_builtins contested_state (PostVerify ''d1'' alice_says_valid ''v1'' 20))
     (sent ascii_builtins contested_state (PostVerify ''d1'' alice_says_valid ''v1'' 20)) \<and>
   count_triggers ''a1'' ''d1''
     (sent ascii_builtins contested_state (PostVerify ''d1'' alice_says_valid ''v1'' 20)) = 1 \<and>
   became popular_state (next_state ascii_builtins popular_state (TimerFires ''d1'' 30))
     ''d1'' Promoted \<and>
   evaluated_for ascii_builtins 30 (rtx_deal\<lparr>votes := 5, status := Promoted, promotedAt := Some 30\<rparr>)
     popular_state (next_state ascii_builtins popular_state (TimerFires ''d1'' 30))
     (sent ascii_builtins popular_state (TimerFires ''d1'' 30)) \<and>
   became numeric_state
     (next_state ascii_builtins numeric_state (PostVerify ''d1'' alice_says_valid ''v1'' 20))
     ''d1'' Verified \<and>
   evaluated_for ascii_builtins 20 (contested_verified\<lparr>title := JNum (Fin 12345)\<rparr>)
     numeric_state
     (next_state ascii_builtins numeric_state (PostVerify ''d1'' alice_says_valid ''v1'' 20))
     (sent ascii_builtins numeric_state (PostVerify ''d1'' alice_says_valid ''v1'' 20)) \<and>
   fst (post_verify ascii_builtins ''d1'' alice_says_valid ''v1'' 20 numeric_state) =
     TypeError_thrown \<and>
   alert_msgs (sent ascii_builtins numeric_state
     (PostVerify ''d1'' alice_says_valid ''v1'' 20)) = [] \<and>
   alerts (next_state ascii_builtins popular_state (PostAlert electronics_body ''a3'' 12)) =
     alerts popular_state @
       [(''a3'', electronics_alert\<lparr>alert_id := ''a3'', minVerifications := JNum (Fin 3),
                                   a_createdAt := 12\<rparr>)] \<and>
   alerts (next_state ascii_builtins popular_state (DeleteAlert ''a1'')) =
     [(''a2'', laptop_alert)]"
  using alerts_evaluated_on_success_only [where s = contested_state and B = ascii_builtins
      and d = "''d1''" and uid = "JStr ''u2''" and body = alice_says_valid
      and newId = "''v1''" and now = 20 and uname = "JStr ''gina''" and dbody = rtx_body
      and m = "JStr ''centralized''" and abody = electronics_body and k = "''a1''"]
    alerts_evaluated_on_success_only [where s = popular_state and B = ascii_builtins
      and d = "''d1''" and uid = "JStr ''u2''" and body = alice_says_valid
      and newId = "''v1''" and now = 30 and uname = "JStr ''gina''" and dbody = rtx_body
      and m = "JStr ''centralized''" and abody = electronics_body and k = "''a1''"]
    alerts_evaluated_on_success_only [where s = numeric_state and B = ascii_builtins
      and d = "''d1''" and uid = "JStr ''u2''" and body = alice_says_valid
      and newId = "''v1''" and now = 20 and uname = "JStr ''gina''" and dbody = rtx_body
      and m = "JStr ''centralized''" and abody = electronics_body and k = "''a1''"]
  by (simp add: example_defs ascii_defs handler_defs not_evaluated_def evaluated_for_def
      became_def)

text \<open>
  C8. Once a user's verification of a deal has been recorded (the request was answered
  with success, or was left by an exception of the alert evaluation, which comes after
  the recording), every later verification request by the same user for the same deal,
  whatever happened in between, fails with \<open>DuplicateError\<close>, broadcasts nothing and
  returns the state it was given: the verification list of the deal, its tallies and
  status and the store of all verifications are as before the call.
\<close>

theorem duplicate_verification_rejected:
  assumes "fst (post_verify B d body newId now s) = Success_verification v dl \<or>
           fst (post_verify B d body newId now s) = TypeError_thrown"
    and "fresh_run B (fst (snd (post_verify B d body newId now s))) es"
    and "req_userId body' = req_userId body"
  shows "post_verify B d body' newId' now' (run B (fst (snd (post_verify B d body newId now s))) es) =
          (Failure DuplicateError ''You already verified this deal'',
           run B (fst (snd (post_verify B d body newId now s))) es, [])"
proof -
  define s1 where "s1 = fst (snd (post_verify B d body newId now s))"
  have s1: "s1 = next_state B s (PostVerify d body newId now)"
    by (simp add: s1_def next_state_def)
  from post_verify_answered [OF assms(1)] obtain deal0 user0 where
    "map_of (deals s) d = Some deal0" "get_opt (users s) (req_userId body) = Some user0"
    "\<not> list_ex (\<lambda>v. verifierId v = str_of (req_userId body)) (verifications deal0)"
    by blast
  from post_verify_after [OF this, of B newId now] obtain dl1 user where
    d1: "map_of (deals s1) d = Some dl1"
    and ex: "list_ex (\<lambda>v. verifierId v = str_of (req_userId body)) (verifications dl1)"
    and u1: "get_opt (users s1) (req_userId body) = Some user"
    by (auto simp: s1)
  from u1 obtain u where u: "req_userId body = JStr u" "map_of (users s1) u = Some user"
    by (cases "req_userId body") auto
  from run_deal [OF assms(2) [folded s1_def] d1] obtain dl' where
    d2: "map_of (deals (run B s1 es)) d = Some dl'" and ev: "deal_evolves dl1 dl'"
    by blast
  from run_user [OF u(2), of B es] obtain user' where
    u2: "map_of (users (run B s1 es)) u = Some user'" by blast
  from deal_evolves_list_ex [OF ev ex]
  have "list_ex (\<lambda>v. verifierId v = str_of (req_userId body')) (verifications dl')"
    by (simp add: assms(3))
  with d2 u2 u
  have "post_verify B d body' newId' now' (run B s1 es) =
          (Failure DuplicateError ''You already verified this deal'', run B s1 es, [])"
    by (intro post_verify_duplicate [of _ _ dl' _ user']) (simp_all add: assms(3))
  then show ?thesis by (simp only: s1_def)
qed

theorem duplicate_verification_rejected_witness:
  "fst (post_verify ascii_builtins ''d1'' alice_says_valid ''v1'' 20 contested_state) =
     Success_verification (verdict_by ''v1'' ''u1'' ''alice'' ''valid'') contested_verified \<and>
   fresh_run ascii_builtins
     (fst (snd (post_verify ascii_builtins ''d1'' alice_says_valid ''v1'' 20 contested_state)))
     [PostVote ''d1'' (JStr ''u2'')] \<and>
   req_userId alice_says_invalid = req_userId alice_says_valid \<and>
   fst (post_verify ascii_builtins ''d1'' alice_says_invalid ''v7'' 40
     (run ascii_builtins
       (fst (snd (post_verify ascii_builtins ''d1'' alice_says_valid ''v1'' 20
          contested_state)))
       [PostVote ''d1'' (JStr ''u2'')])) =
     Failure DuplicateError ''You already verified this deal'' \<and>
   fst (post_verify ascii_builtins ''d1'' alice_says_valid ''v1'' 20 numeric_state) =
     TypeError_thrown \<and>
   fst (post_verify ascii_builtins ''d1'' alice_says_invalid ''v7'' 40
     (fst (snd (post_verify ascii_builtins ''d1'' alice_says_valid ''v1'' 20
          numeric_state)))) =
     Failure DuplicateError ''You already verified this deal''"
  using duplicate_verification_rejected [of ascii_builtins "''d1''" alice_says_valid "''v1''" 20
      contested_state "verdict_by ''v1'' ''u1'' ''alice'' ''valid''" contested_verified
      "[PostVote ''d1'' (JStr ''u2'')]" alice_says_invalid "''v7''" 40]
    duplicate_verification_rejected [of ascii_builtins "''d1''" alice_says_valid "''v1''" 20
      numeric_state "verdict_by ''v1'' ''u1'' ''alice'' ''valid''" contested_verified
      "[]" alice_says_invalid "''v7''" 40]
  by (simp add: example_defs ascii_defs handler_defs)

text \<open>
  C9, as stated, fails: the handler tests only that the price is present and truthy. A
  negative price is accepted and stored, and a complete draft from an unknown submitter
  is refused with \<open>NotFoundError\<close> instead of creating a deal.
\<close>

theorem submit_negative_price_counterexample:
  "fst (post_deals ascii_builtins (rtx_body\<lparr>req_price := JNum (Fin (- 5))\<rparr>) ''d1'' 10
         example_state) =
     Success_deal (rtx_deal\<lparr>price := Fin (- 5)\<rparr>) \<and>
   map_of (deals (fst (snd (post_deals ascii_builtins (rtx_body\<lparr>req_price := JNum (Fin (- 5))\<rparr>)
         ''d1'' 10 example_state)))) ''d1'' = Some (rtx_deal\<lparr>price := Fin (- 5)\<rparr>) \<and>
   post_deals ascii_builtins (rtx_body\<lparr>req_submittedBy := JStr ''u9''\<rparr>) ''d1'' 10 example_state =
     (Failure NotFoundError ''User not found'', example_state, [])"
  by (simp add: example_defs ascii_defs handler_defs)

text \<open>
  C9, amended. Submission fails with \<open>ValidationError\<close> and changes nothing when the
  title, the price, the URL or the submitter is absent or falsy (the empty string; for
  the price also 0, \<^verbatim>\<open>NaN\<close>, \<^verbatim>\<open>null\<close> and \<^verbatim>\<open>false\<close>). When all four are there and
  the submitter is not a registered user it fails with \<open>NotFoundError\<close> and changes
  nothing. Otherwise it stores a new pending deal with no votes and no verifications,
  whose price is \<^verbatim>\<open>parseFloat\<close> of the price given, whatever its sign.
\<close>

theorem submit_outcome:
  "(\<not> truthy (req_title body) \<or> \<not> truthy (req_price body) \<or>
    \<not> truthy (req_url body) \<or> \<not> truthy (req_submittedBy body) \<longrightarrow>
      post_deals B body dealId now s =
        (Failure ValidationError ''Missing required fields'', s, [])) \<and>
   (truthy (req_title body) \<and> truthy (req_price body) \<and> truthy (req_url body) \<and>
    truthy (req_submittedBy body) \<and> get_opt (users s) (req_submittedBy body) = None \<longrightarrow>
      post_deals B body dealId now s = (Failure NotFoundError ''User not found'', s, [])) \<and>
   (truthy (req_title body) \<and> truthy (req_price body) \<and> truthy (req_url body) \<and>
    truthy (req_submittedBy body) \<and> get_opt (users s) (req_submittedBy body) \<noteq> None \<longrightarrow>
      (\<exists>deal. fst (post_deals B body dealId now s) = Success_deal deal \<and>
         map_of (deals (fst (snd (post_deals B body dealId now s)))) =
           (map_of (deals s))(dealId \<mapsto> deal) \<and>
         status deal = Pending \<and> votes deal = 0 \<and> verifications deal = [] \<and>
         price deal = parseFloat B (req_price body)))"
  by (auto simp: post_deals_def Let_def new_deal_def update_conv' split: option.splits)

theorem submit_outcome_witness:
  "\<not> truthy (req_title (rtx_body\<lparr>req_title := JUndefined\<rparr>)) \<and>
   post_deals ascii_builtins (rtx_body\<lparr>req_title := JUndefined\<rparr>) ''d1'' 10 example_state =
     (Failure ValidationError ''Missing required fields'', example_state, []) \<and>
   truthy (req_price (rtx_body\<lparr>req_submittedBy := JStr ''u9''\<rparr>)) \<and>
   get_opt (users example_state) (req_submittedBy (rtx_body\<lparr>req_submittedBy := JStr ''u9''\<rparr>)) = None \<and>
   post_deals ascii_builtins (rtx_body\<lparr>req_submittedBy := JStr ''u9''\<rparr>) ''d1'' 10 example_state =
     (Failure NotFoundError ''User not found'', example_state, []) \<and>
   truthy (req_price rtx_body) \<and>
   get_opt (users example_state) (req_submittedBy rtx_body) = Some (mk_user ''u1'' ''alice'') \<and>
   fst (post_deals ascii_builtins rtx_body ''d1'' 10 example_state) = Success_deal rtx_deal"
  using submit_outcome [of "rtx_body\<lparr>req_title := JUndefined\<rparr>" ascii_builtins "''d1''" 10 example_state]
    submit_outcome [of "rtx_body\<lparr>req_submittedBy := JStr ''u9''\<rparr>" ascii_builtins "''d1''" 10 example_state]
    submit_outcome [of rtx_body ascii_builtins "''d1''" 10 example_state]
  by (simp add: example_defs ascii_defs handler_defs)

text \<open>
  C10, as stated, fails for a minimum of 0 that arrives as the string \<^verbatim>\<open>"0"\<close>, which
  is how the bundled page sends what is typed into its form: the string is truthy, so
  it is stored as it came, and not 3. The promotion check of a deal with no
  verification at all then sends the notification for this alert.
\<close>

theorem minimum_zero_string_counterexample:
  "req_minVerifications zero_body = JStr ''0'' \<and>
   toNumber ascii_builtins (req_minVerifications zero_body) = Fin 0 \<and>
   fst (post_alerts ascii_builtins zero_body ''a3'' 12 popular_state) =
     Success_alert (electronics_alert\<lparr>alert_id := ''a3'', minVerifications := JStr ''0'',
                                      a_createdAt := 12\<rparr>) \<and>
   mode (config popular_state) = Centralized \<and>
   map_of (deals popular_state) ''d1'' = Some (rtx_deal\<lparr>votes := 5\<rparr>) \<and>
   verifications (rtx_deal\<lparr>votes := 5\<rparr>) = [] \<and>
   status_of (run ascii_builtins popular_state
     [PostAlert zero_body ''a3'' 12, TimerFires ''d1'' 30]) ''d1'' = Some Promoted \<and>
   count_triggers ''a3'' ''d1'' (run_sent ascii_builtins popular_state
     [PostAlert zero_body ''a3'' 12, TimerFires ''d1'' 30]) = 1"
  by (simp add: example_defs ascii_defs handler_defs status_of_def next_state_def sent_def
      js_ge_def)

text \<open>
  C10, amended. An alert request whose minimum-verification field is falsy (absent,
  \<^verbatim>\<open>null\<close>, \<^verbatim>\<open>false\<close>, the number 0, \<^verbatim>\<open>NaN\<close> or the empty string) stores a minimum
  of 3; any other value, the string \<^verbatim>\<open>"0"\<close> too, is stored as it came. At any later
  moment at which the alert with the default minimum has not been deleted, the
  promotion check of a deal with fewer than three verifications, so of a deal with
  none, sends no notification for it: the matcher compares the minimum with the number
  of verifications of the deal.
\<close>

theorem default_minimum_blocks_promoted:
  assumes "alerts_wf (alerts s0)"
    and "fst (post_alerts B abody k t0 s0) = Success_alert a0"
    and "fresh_run B (next_state B s0 (PostAlert abody k t0)) es"
    and "DeleteAlert k \<notin> set es"
    and "s = run B (next_state B s0 (PostAlert abody k t0)) es"
  shows "minVerifications a0 =
           (if truthy (req_minVerifications abody) then req_minVerifications abody
            else JNum (Fin 3)) \<and>
         (\<exists>a. map_of (alerts s) k = Some a \<and> minVerifications a = minVerifications a0) \<and>
         (\<not> truthy (req_minVerifications abody) \<and> map_of (deals s) d = Some deal \<and>
          length (verifications deal) < 3 \<longrightarrow>
            count_triggers k x (fst (snd (checkPromotion B now d s))) = 0 \<and>
            count_triggers k x (sent B s (TimerFires d now)) = 0)"
proof -
  from post_alerts_Success [OF assms(2)] have
    m0: "minVerifications a0 =
           (if truthy (req_minVerifications abody) then req_minVerifications abody
            else JNum (Fin 3))"
    by (auto simp: new_alert_def)
  from created_alert_later [OF assms(1-4)] obtain a where
    wf: "alerts_wf (alerts s)"
    and a: "map_of (alerts s) k = Some a"
    and mv: "minVerifications a =
       (if truthy (req_minVerifications abody) then req_minVerifications abody
        else JNum (Fin 3))"
    by (auto simp: assms(5))
  have none: "count_triggers k x (fst (snd (checkPromotion B now d s'))) = 0"
    if "\<not> truthy (req_minVerifications abody)" "map_of (deals s') d = Some deal"
      "length (verifications deal) < 3" "alerts s' = alerts s"
    for s'
  proof -
    define deal' where "deal' = deal\<lparr>status := Promoted, promotedAt := Some now\<rparr>"
    have "\<not> verificationMatch B deal' a"
      using that(1,3) mv by (simp add: verificationMatch_def js_ge_def deal'_def)
    then have "count_triggers k x (fst (snd (checkAlert B now deal' a))) = 0"
      by (simp add: checkAlert_count)
    with checkAlerts_each_count_le [OF wf, of k x B now deal'] a
    have "count_triggers k x (fst (snd (checkAlerts_each B now deal' (alerts s)))) = 0"
      by simp
    then show ?thesis
      using that(2,4) by (simp add: checkPromotion_sent deal'_def)
  qed
  have timer: "count_triggers k x (sent B s (TimerFires d now)) = 0"
    if "\<not> truthy (req_minVerifications abody)" "map_of (deals s) d = Some deal"
      "length (verifications deal) < 3"
  proof (cases "list_ex (\<lambda>t. fst t = d) (timers s)")
    case True
    then have "sent B s (TimerFires d now) =
        fst (snd (checkPromotion B now d (s\<lparr>timers := remove_timer d (timers s)\<rparr>)))"
      by (simp add: sent_def timer_fires_def case_prod_beta)
    with none [of "s\<lparr>timers := remove_timer d (timers s)\<rparr>"] that show ?thesis by simp
  next
    case False
    then show ?thesis by (simp add: sent_def timer_fires_def)
  qed
  from m0 a mv none [of s] timer show ?thesis by auto
qed

theorem default_minimum_blocks_promoted_witness:
  "alerts_wf (alerts popular_state) \<and>
   fst (post_alerts ascii_builtins electronics_body ''a3'' 12 popular_state) =
     Success_alert (electronics_alert\<lparr>alert_id := ''a3'', minVerifications := JNum (Fin 3),
                                      a_createdAt := 12\<rparr>) \<and>
   fresh_run ascii_builtins
     (next_state ascii_builtins popular_state (PostAlert electronics_body ''a3'' 12))
     [PostVote ''d1'' (JStr ''u2'')] \<and>
   DeleteAlert ''a3'' \<notin> set [PostVote ''d1'' (JStr ''u2'')] \<and>
   req_minVerifications electronics_body = JStr [] \<and>
   \<not> truthy (req_minVerifications electronics_body) \<and>
   map_of (deals (run ascii_builtins
     (next_state ascii_builtins popular_state (PostAlert electronics_body ''a3'' 12))
     [PostVote ''d1'' (JStr ''u2'')])) ''d1'' = Some (rtx_deal\<lparr>votes := 6\<rparr>) \<and>
   length (verifications (rtx_deal\<lparr>votes := 6\<rparr>)) < 3 \<and>
   status_of (run ascii_builtins popular_state
     [PostAlert electronics_body ''a3'' 12, PostVote ''d1'' (JStr ''u2''),
      TimerFires ''d1'' 30]) ''d1'' = Some Promoted \<and>
   count_triggers ''a3'' ''d1'' (sent ascii_builtins (run ascii_builtins
     (next_state ascii_builtins popular_state (PostAlert electronics_body ''a3'' 12))
     [PostVote ''d1'' (JStr ''u2'')]) (TimerFires ''d1'' 30)) = 0 \<and>
   truthy (req_minVerifications zero_body) \<and>
   fst (post_alerts ascii_builtins zero_body ''a3'' 12 popular_state) =
     Success_alert (electronics_alert\<lparr>alert_id := ''a3'', minVerifications := JStr ''0'',
                                      a_createdAt := 12\<rparr>)"
  using default_minimum_blocks_promoted [where ?s0.0 = popular_state and B = ascii_builtins
      and abody = electronics_body and k = "''a3''" and ?t0.0 = 12
      and ?a0.0 = "electronics_alert\<lparr>alert_id := ''a3'', minVerifications := JNum (Fin 3),
                                      a_createdAt := 12\<rparr>"
      and es = "[PostVote ''d1'' (JStr ''u2'')]"
      and s = "run ascii_builtins
         (next_state ascii_builtins popular_state (PostAlert electronics_body ''a3'' 12))
         [PostVote ''d1'' (JStr ''u2'')]"
      and d = "''d1''" and deal = "rtx_deal\<lparr>votes := 6\<rparr>" and x = "''d1''" and now = 30]
    default_minimum_blocks_promoted [where ?s0.0 = popular_state and B = ascii_builtins
      and abody = zero_body and k = "''a3''" and ?t0.0 = 12
      and ?a0.0 = "electronics_alert\<lparr>alert_id := ''a3'', minVerifications := JStr ''0'',
                                      a_createdAt := 12\<rparr>"
      and es = "[]"
      and s = "next_state ascii_builtins popular_state (PostAlert zero_body ''a3'' 12)"
      and d = "''d1''" and deal = "rtx_deal\<lparr>votes := 5\<rparr>" and x = "''d1''" and now = 30]
  by (simp add: example_defs ascii_defs handler_defs alerts_wf_def js_ge_def next_state_def
      sent_def status_of_def)

end
